theory Spec2Isabelle
  imports Main "HOL-Library.Multiset"
begin

section \<open>Column schema resolver (session\_find.go, ParseColumnsSchema)\<close>

text \<open>
  A \<open>schemas.Column\<close> is kept as its name and its position in the struct; a
  \<open>schemas.Table\<close> as its ordered columns and the names of its primary-key columns.
  \<open>*sql.ColumnType\<close> is opaque to the code embedded here and stays a type variable.
\<close>

record Column =
  col_name :: string
  col_field_index :: nat

record Table =
  tbl_name :: string
  tbl_columns :: "Column list"
  PrimaryKeys :: "string list"
  tbl_deleted :: "string option"
  AutoIncrement :: string

record 'ct QueryedField =
  FieldName :: string
  LowerFieldName :: string
  ColumnType :: 'ct
  TempIndex :: nat
  ColumnSchema :: "Column option"

datatype go_panic = IndexOutOfRange | NilDereference

text \<open>
  Modelled from the spec: \<open>schemas.Table.GetColumnIdx\<close> is not under src/. The spec (4.1)
  says that matching is case-insensitive and that the i-th occurrence of a lower-cased name
  binds to the i-th same-named column in struct order, with no match past the number of
  same-named columns. \<open>lower\<close> stands for \<open>strings.ToLower\<close>.
\<close>

definition GetColumnIdx :: "(string \<Rightarrow> string) \<Rightarrow> Table \<Rightarrow> string \<Rightarrow> nat \<Rightarrow> Column option" where
  "GetColumnIdx lower table name idx =
     (let cols = filter (\<lambda>c. lower (col_name c) = lower name) (tbl_columns table)
      in if idx < length cols then Some (cols ! idx) else None)"

text \<open>\<open>ColumnsSchema.ParseTableSchema\<close>: every field is bound through \<open>GetColumnIdx\<close>.\<close>

definition ParseTableSchema ::
  "(string \<Rightarrow> string) \<Rightarrow> Table \<Rightarrow> 'ct QueryedField list \<Rightarrow> 'ct QueryedField list" where
  "ParseTableSchema lower table fs =
     map (\<lambda>field. field\<lparr>ColumnSchema := GetColumnIdx lower table (FieldName field) (TempIndex field)\<rparr>)
       fs"

text \<open>The first loop of \<open>ParseColumnsSchema\<close>: one field per column name, \<open>types[i]\<close> beside it.\<close>

definition newFields :: "(string \<Rightarrow> string) \<Rightarrow> string list \<Rightarrow> 'ct list \<Rightarrow> 'ct QueryedField list" where
  "newFields lower fieldNames types =
     map (\<lambda>(fieldName, ty).
            \<lparr>FieldName = fieldName, LowerFieldName = lower fieldName, ColumnType = ty,
             TempIndex = 0, ColumnSchema = None\<rparr>)
       (zip fieldNames types)"

text \<open>
  The second loop, with \<open>tempMap\<close> threaded through: a name seen for the first time gets 0,
  a name seen before gets the stored index plus one.
\<close>

fun assignTempIndex :: "(string \<rightharpoonup> nat) \<Rightarrow> 'ct QueryedField list \<Rightarrow> 'ct QueryedField list" where
  "assignTempIndex tempMap [] = []"
| "assignTempIndex tempMap (field # fs) =
     (let idx = (case tempMap (LowerFieldName field) of None \<Rightarrow> 0 | Some i \<Rightarrow> i + 1)
      in field\<lparr>TempIndex := idx\<rparr> # assignTempIndex (tempMap(LowerFieldName field \<mapsto> idx)) fs)"

text \<open>
  \<open>ParseColumnsSchema\<close>. Reading \<open>types[i]\<close> panics in Go when \<open>types\<close> is shorter than
  \<open>fieldNames\<close>; the table is a nil-able pointer.
\<close>

definition ParseColumnsSchema ::
  "(string \<Rightarrow> string) \<Rightarrow> string list \<Rightarrow> 'ct list \<Rightarrow> Table option \<Rightarrow> go_panic + 'ct QueryedField list" where
  "ParseColumnsSchema lower fieldNames types table =
     (if length types < length fieldNames then Inl IndexOutOfRange
      else
        let fs = assignTempIndex Map.empty (newFields lower fieldNames types)
        in case table of
             None \<Rightarrow> Inr fs
           | Some tb \<Rightarrow> Inr (ParseTableSchema lower tb fs))"

text \<open>\<open>strings.ToLower\<close> on ASCII text, used where a concrete input is evaluated.\<close>

definition ascii_lower_char :: "char \<Rightarrow> char" where
  "ascii_lower_char c =
     (let n = (of_char c :: nat) in if 65 \<le> n \<and> n \<le> 90 then char_of (n + 32) else c)"

definition ascii_ToLower :: "string \<Rightarrow> string" where
  "ascii_ToLower s = map ascii_lower_char s"

section \<open>Values, reflection and collaborators\<close>

text \<open>
  The part of Go's \<open>reflect\<close> that \<open>find\<close>, \<open>noCacheFind\<close> and \<open>cacheFind\<close> look at: the kind of
  a type, its element type and its map key type. \<open>Elem\<close> and \<open>Key\<close> are only applied by the
  code where Go defines them (slice, map and pointer types).
\<close>

datatype Kind = Slice | Map | Ptr | Struct | Basic

datatype gotype = StructT string | PtrT gotype | SliceT gotype | MapT gotype gotype | BasicT string

fun KindOf :: "gotype \<Rightarrow> Kind" where
  "KindOf (StructT n) = Struct"
| "KindOf (PtrT t) = Ptr"
| "KindOf (SliceT t) = Slice"
| "KindOf (MapT k t) = Map"
| "KindOf (BasicT n) = Basic"

fun Elem :: "gotype \<Rightarrow> gotype" where
  "Elem (PtrT t) = t"
| "Elem (SliceT t) = t"
| "Elem (MapT k t) = t"
| "Elem t = t"

fun Key :: "gotype \<Rightarrow> gotype" where
  "Key (MapT k t) = k"
| "Key t = t"

text \<open>
  An \<open>interface{}\<close> holding a scalar (a primary-key component, a query argument, a raw
  column of a result row), and \<open>schemas.PK\<close>, a slice of them.
\<close>

datatype val = IntV int | StrV string | NilV

type_synonym PK = "val list"

type_synonym raw = "val list"

text \<open>
  A bean is a materialised row object: the type of the object itself (what
  \<open>reflect.ValueOf(bean).Elem().Type()\<close> gives for the pointer the cache holds) and its
  field values.
\<close>

record bean =
  bean_type :: gotype
  bean_fields :: "(string \<times> val) list"

text \<open>
  The destination after \<open>reflect.Indirect(reflect.ValueOf(rowsSlicePtr))\<close>: its type, the
  elements of a slice and the entries of a map. An element is the bean itself or a pointer
  to it; a map key is a converted scalar or a whole \<open>schemas.PK\<close>.
\<close>

datatype elem = PtrTo bean | ValOf bean

datatype mapkey = KeyV val | KeyPK PK

record container =
  c_type :: gotype
  c_slice :: "elem list"
  c_map :: "mapkey \<rightharpoonup> elem"

datatype error =
    ErrCacheFailed
  | ErrNeedSliceOrMap
  | ErrPtrToPtr
  | ErrMapKeyNoCache
  | ErrMapKeyCache
  | ErrTableNotFound
  | ErrInsertNoID
  | Panic go_panic
  | ErrOther string

text \<open>
  \<open>ErrNeedSliceOrMap\<close> is "needs a pointer to a slice or a map", \<open>ErrPtrToPtr\<close> is "pointer to
  pointer is not supported", \<open>ErrMapKeyNoCache\<close> is "don't support multiple primary key's map
  has non-slice key type" (both returns of \<open>noCacheFind\<close>), \<open>ErrMapKeyCache\<close> is "table have
  multiple primary keys, key is not schemas.PK or slice", \<open>ErrInsertNoID\<close> is "insert
  successfully but not returned id"; \<open>ErrOther\<close> is an error of a collaborator.
\<close>

datatype cond = CondBean bean | CondDeleted string

record Rows =
  rows_columns :: "error + string list"
  rows_types :: "error + string list"
  rows_data :: "raw list"
  rows_err :: "error option"

record session =
  LastError :: "error option"
  RefTable :: "Table option"
  TableName :: string
  IsDistinct :: bool
  Unscoped :: bool
  ColumnMap :: "string list"
  NoAutoCondition :: bool
  UseCache :: bool
  LimitN :: "int option"
  isAutoCommit :: bool

text \<open>
  What happens outside the process or is remembered for the claims: queries sent to the
  database, the nested backfill find, statements executed, cache invalidations, and the
  warnings and errors written to the log (\<open>Debugf\<close> lines are left out).
\<close>

datatype event =
    QueryRows string "val list"
  | Backfill string "PK list"
  | ExecSQL string "val list"
  | ClearIdsEv string
  | Warnf string
  | Errorf string

text \<open>
  Modelled from the spec: the \<open>caches\<close> package (\<open>Cacher\<close>, \<open>GetCacheSql\<close>, \<open>PutCacheSql\<close>) is
  not under src/. The spec (section 6) gives the store as get-bean(table, key),
  put-bean(table, key, bean), get-id-list(table, fingerprint), put-id-list(table,
  fingerprint, ids) and clear(table[, key]), the fingerprint being the SQL text and its
  arguments. The store keeps what was put until it is cleared.
\<close>

record world =
  ids_cache :: "string \<times> string \<times> val list \<rightharpoonup> PK list"
  bean_cache :: "string \<times> string \<rightharpoonup> bean"
  events :: "event list"

definition emit :: "event \<Rightarrow> world \<Rightarrow> world" where
  "emit ev w = w\<lparr>events := events w @ [ev]\<rparr>"

definition GetCacheSql :: "world \<Rightarrow> string \<Rightarrow> string \<Rightarrow> val list \<Rightarrow> PK list option" where
  "GetCacheSql w tableName sql args = ids_cache w (tableName, sql, args)"

definition PutCacheSql :: "PK list \<Rightarrow> string \<Rightarrow> string \<Rightarrow> val list \<Rightarrow> world \<Rightarrow> world" where
  "PutCacheSql ids tableName sql args w = w\<lparr>ids_cache := (ids_cache w)((tableName, sql, args) \<mapsto> ids)\<rparr>"

definition GetBean :: "world \<Rightarrow> string \<Rightarrow> string \<Rightarrow> bean option" where
  "GetBean w tableName sid = bean_cache w (tableName, sid)"

definition PutBean :: "string \<Rightarrow> string \<Rightarrow> bean \<Rightarrow> world \<Rightarrow> world" where
  "PutBean tableName sid b w = w\<lparr>bean_cache := (bean_cache w)((tableName, sid) \<mapsto> b)\<rparr>"

definition DelBean :: "string \<Rightarrow> string \<Rightarrow> world \<Rightarrow> world" where
  "DelBean tableName sid w = w\<lparr>bean_cache := (bean_cache w)((tableName, sid) := None)\<rparr>"

definition ClearIds :: "string \<Rightarrow> world \<Rightarrow> world" where
  "ClearIds tableName w =
     emit (ClearIdsEv tableName)
       (w\<lparr>ids_cache := (\<lambda>k. if fst k = tableName then None else ids_cache w k)\<rparr>)"

text \<open>
  The collaborators of the find path that are not under src/, taken as parameters: the
  cacher manager, the dialect's SQL filters, SQL generation, the database cursor, scanning
  and conversion, the tag parser, and \<open>session.canCache\<close>.
  \<^item> \<open>scanPK\<close> is \<open>rows.ScanSlice\<close> followed by \<open>col.ConvertID\<close> for every primary-key column
    (session\_find.go lines 374 to 385): the first error of either, or the key.
  \<^item> \<open>nestedFind\<close> is \<open>session.NoCache().Table(tableName).find(beans)\<close> on the fresh statement
    that lines 456 to 477 build from the missed ids: its error, or the field values of the
    rows it appended to the fresh slice, in the order it appended them.
  \<^item> \<open>row2Bean\<close> is what \<open>rows2Beans\<close> does with one row of the cursor (scan and convert
    into a new element, with its primary key); \<open>scanValue\<close> is the scan of a row into a
    non-struct element (\<open>getSlice\<close>, \<open>getMap\<close>, \<open>rows.Scan\<close>).
\<close>

record env =
  ToLower :: "string \<Rightarrow> string"
  canCache :: "session \<Rightarrow> bool"
  GetCacher :: "string \<Rightarrow> bool"
  Filters :: "string \<Rightarrow> string"
  joinColumns :: "string list \<Rightarrow> string"
  SplitNNoCase :: "string \<Rightarrow> string \<Rightarrow> nat \<Rightarrow> string list"
  Itoa :: "int \<Rightarrow> string"
  isMSSQL :: bool
  SetRefValue :: "gotype \<Rightarrow> error + Table \<times> string"
  BuildConds :: "bean \<Rightarrow> error + cond"
  ColumnMapAdd :: "string list \<Rightarrow> string \<Rightarrow> string list"
  GenFindSQL :: "session \<Rightarrow> cond option \<Rightarrow> error + string \<times> val list"
  queryRows :: "string \<Rightarrow> val list \<Rightarrow> error + Rows"
  scanPK :: "Table \<Rightarrow> raw \<Rightarrow> error + PK"
  PKToString :: "PK \<Rightarrow> error + string"
  IDOfV :: "Table \<Rightarrow> bean \<Rightarrow> error + PK"
  nestedFind :: "string \<Rightarrow> gotype \<Rightarrow> PK list \<Rightarrow> error + (string \<times> val) list list"
  AssignValue :: "gotype \<Rightarrow> val \<Rightarrow> error + val"
  SetCompositeKey :: "gotype \<Rightarrow> PK \<Rightarrow> error + mapkey"
  ParseWithCache :: "gotype \<Rightarrow> error + Table"
  row2Bean :: "Table \<Rightarrow> gotype \<Rightarrow> raw \<Rightarrow> error + bean \<times> PK"
  scanValue :: "gotype \<Rightarrow> raw \<Rightarrow> error + bean"
  executeProcessors :: "error option"

section \<open>The ID-only query (internal/statements/cache.go, ConvertIDSQL)\<close>

text \<open>
  \<open>Statement.ConvertIDSQL\<close>: the select list is replaced by the primary-key columns.
  \<open>PKColumns\<close> has one column per name of \<open>PrimaryKeys\<close>; joining the columns and the
  case-insensitive split are collaborators.
\<close>

definition ConvertIDSQL :: "env \<Rightarrow> session \<Rightarrow> string \<Rightarrow> string" where
  "ConvertIDSQL env statement sqlStr =
     (case RefTable statement of
        None \<Rightarrow> ''''
      | Some table \<Rightarrow>
          if length (PrimaryKeys table) = 0 then ''''
          else
            let colstrs = joinColumns env (PrimaryKeys table);
                sqls = SplitNNoCase env sqlStr '' from '' 2
            in if length sqls \<noteq> 2 then ''''
               else ''SELECT '' @
                    (case LimitN statement of
                       Some n \<Rightarrow> if isMSSQL env then ''TOP '' @ Itoa env n @ '' '' else ''''
                     | None \<Rightarrow> '''') @
                    colstrs @ '' FROM '' @ sqls ! 1)"

section \<open>Cache-assisted find (session\_find.go, cacheFind)\<close>

text \<open>
  Modelled from the spec: \<open>utils.IndexNoCase\<close> is not under src/. The spec (4.4, step 1) says
  the raw SQL is searched for the grouping keywords; the search is case-insensitive, and
  the code compares the result with -1. It is the index of the first occurrence of the
  lower-cased separator in the lower-cased text.
\<close>

fun strings_Index :: "string \<Rightarrow> string \<Rightarrow> int" where
  "strings_Index [] sep = (if sep = [] then 0 else - 1)"
| "strings_Index (c # s) sep =
     (if take (length sep) (c # s) = sep then 0
      else let r = strings_Index s sep in if r < 0 then - 1 else r + 1)"

definition IndexNoCase :: "env \<Rightarrow> string \<Rightarrow> string \<Rightarrow> int" where
  "IndexNoCase env s sep = strings_Index (ToLower env s) (ToLower env sep)"

text \<open>
  Lines 366 to 388: the loop over the rows of the ID-only query. The counter is incremented
  and compared with 500 before the row is scanned.
\<close>

fun collectIDs :: "env \<Rightarrow> Table \<Rightarrow> raw list \<Rightarrow> nat \<Rightarrow> PK list \<Rightarrow> error + PK list" where
  "collectIDs env table [] i ids = Inr ids"
| "collectIDs env table (row # rows) i ids =
     (if i + 1 > 500 then Inl ErrCacheFailed
      else case scanPK env table row of
             Inl e \<Rightarrow> Inl e
           | Inr pk \<Rightarrow> collectIDs env table rows (i + 1) (ids @ [pk]))"

text \<open>Lines 358 to 400: the id list from the cache, or from the ID-only query and then cached.\<close>

definition resolveIDList ::
  "env \<Rightarrow> Table \<Rightarrow> string \<Rightarrow> string \<Rightarrow> val list \<Rightarrow> world \<Rightarrow> (error + PK list) \<times> world" where
  "resolveIDList env table tableName newsql args w =
     (case GetCacheSql w tableName newsql args of
        Some ids \<Rightarrow> (Inr ids, w)
      | None \<Rightarrow>
          let w1 = emit (QueryRows newsql args) w
          in case queryRows env newsql args of
               Inl e \<Rightarrow> (Inl e, w1)
             | Inr rows \<Rightarrow>
                 (case collectIDs env table (rows_data rows) 0 [] of
                    Inl e \<Rightarrow> (Inl e, w1)
                  | Inr ids \<Rightarrow>
                      (case rows_err rows of
                         Some e \<Rightarrow> (Inl e, w1)
                       | None \<Rightarrow> (Inr ids, PutCacheSql ids tableName newsql args w1))))"

text \<open>The closure \<open>isHit\<close> (lines 416 to 427), "fix issue 894".\<close>

definition isHit :: "gotype \<Rightarrow> bean option \<Rightarrow> bool" where
  "isHit t bean =
     (case bean of
        None \<Rightarrow> False
      | Some b \<Rightarrow>
          let ckb = bean_type b; ht = (ckb = t)
          in if \<not> ht \<and> KindOf t = Ptr then Elem t = ckb else ht)"

text \<open>
  Lines 404 to 450: the loop over the resolved ids, with the three variables it updates.
  \<open>ididxes\<close> is a Go map; \<open>temps\<close> has one slot per id, \<open>nil\<close> at first. \<open>resolveOne\<close> is
  the body of the loop for the id at index \<open>idx\<close>, \<open>resolveBeans\<close> the loop.
\<close>

record resolved =
  r_ides :: "PK list"
  r_ididxes :: "string \<rightharpoonup> nat"
  r_temps :: "bean option list"

definition resolveOne ::
  "env \<Rightarrow> string \<Rightarrow> Table \<Rightarrow> gotype \<Rightarrow> nat \<Rightarrow> PK \<Rightarrow> resolved \<Rightarrow> world \<Rightarrow> (error + resolved) \<times> world" where
  "resolveOne env tableName table t idx idv r w =
     (case PKToString env idv of
        Inl e \<Rightarrow> (Inl e, w)
      | Inr sid \<Rightarrow>
          (case (isHit t (GetBean w tableName sid), GetBean w tableName sid) of
             (True, Some bean) \<Rightarrow>
               (case IDOfV env table bean of
                  Inl e \<Rightarrow> (Inl e, w)
                | Inr pk \<Rightarrow>
                    (case PKToString env pk of
                       Inl e \<Rightarrow> (Inl e, w)
                     | Inr xid \<Rightarrow>
                         if sid \<noteq> xid then (Inl ErrCacheFailed, emit (Errorf ''[cache] error cache'') w)
                         else (Inr (r\<lparr>r_temps := (r_temps r)[idx := Some bean]\<rparr>), w)))
           | _ \<Rightarrow>
               (Inr (r\<lparr>r_ides := r_ides r @ [idv], r_ididxes := (r_ididxes r)(sid \<mapsto> idx)\<rparr>), w)))"

fun resolveBeans ::
  "env \<Rightarrow> string \<Rightarrow> Table \<Rightarrow> gotype \<Rightarrow> nat \<Rightarrow> PK list \<Rightarrow> resolved \<Rightarrow> world \<Rightarrow> (error + resolved) \<times> world" where
  "resolveBeans env tableName table t idx [] r w = (Inr r, w)"
| "resolveBeans env tableName table t idx (idv # ids) r w =
     (case resolveOne env tableName table t idx idv r w of
        (Inl e, w1) \<Rightarrow> (Inl e, w1)
      | (Inr r1, w1) \<Rightarrow> resolveBeans env tableName table t (idx + 1) ids r1 w1)"

text \<open>
  Lines 485 to 504: every bean of the backfill is stored in \<open>temps\<close> at \<open>ididxes[sid]\<close> (a Go
  map gives 0 for a missing key) and put into the bean cache. \<open>placeOne\<close> is the body of
  the loop.
\<close>

definition placeOne ::
  "env \<Rightarrow> string \<Rightarrow> Table \<Rightarrow> (string \<rightharpoonup> nat) \<Rightarrow> bean \<Rightarrow> bean option list \<Rightarrow> world \<Rightarrow>
   (error + bean option list) \<times> world" where
  "placeOne env tableName table ididxes rv temps w =
     (case IDOfV env table rv of
        Inl e \<Rightarrow> (Inl e, w)
      | Inr idv \<Rightarrow>
          (case PKToString env idv of
             Inl e \<Rightarrow> (Inl e, w)
           | Inr sid \<Rightarrow>
               (Inr (temps[(case ididxes sid of None \<Rightarrow> 0 | Some i \<Rightarrow> i) := Some rv]),
                PutBean tableName sid rv w)))"

fun placeBeans ::
  "env \<Rightarrow> string \<Rightarrow> Table \<Rightarrow> (string \<rightharpoonup> nat) \<Rightarrow> bean list \<Rightarrow> bean option list \<Rightarrow> world \<Rightarrow>
   (error + bean option list) \<times> world" where
  "placeBeans env tableName table ididxes [] temps w = (Inr temps, w)"
| "placeBeans env tableName table ididxes (rv # vs) temps w =
     (case placeOne env tableName table ididxes rv temps w of
        (Inl e, w1) \<Rightarrow> (Inl e, w1)
      | (Inr temps1, w1) \<Rightarrow> placeBeans env tableName table ididxes vs temps1 w1)"

text \<open>
  Lines 452 to 505. The beans of the nested find are elements of a slice of \<open>t\<close>; the code
  takes their address when \<open>t\<close> is not a pointer type, so the object type is \<open>t\<close> or what
  \<open>t\<close> points to.
\<close>

definition backfill ::
  "env \<Rightarrow> string \<Rightarrow> Table \<Rightarrow> gotype \<Rightarrow> resolved \<Rightarrow> world \<Rightarrow> (error + bean option list) \<times> world" where
  "backfill env tableName table t r w =
     (if length (r_ides r) > 0 then
        let w1 = emit (Backfill tableName (r_ides r)) w
        in case nestedFind env tableName t (r_ides r) of
             Inl e \<Rightarrow> (Inl e, w1)
           | Inr vs \<Rightarrow>
               placeBeans env tableName table (r_ididxes r)
                 (map (\<lambda>fs. \<lparr>bean_type = (if KindOf t = Ptr then Elem t else t), bean_fields = fs\<rparr>) vs)
                 (r_temps r) w1
      else (Inr (r_temps r), w))"

text \<open>
  Lines 507 to 543: the walk over \<open>temps\<close>, with \<open>ids[j]\<close> beside \<open>temps[j]\<close> (the two have the
  same length). An empty slot is logged and skipped; \<open>composeOne\<close> puts a bean into the
  destination.
\<close>

definition composeOne ::
  "env \<Rightarrow> gotype \<Rightarrow> PK \<Rightarrow> bean \<Rightarrow> container \<Rightarrow> error + container" where
  "composeOne env t key bean sliceValue =
     (let el = (if KindOf t = Ptr then PtrTo bean else ValOf bean)
      in if KindOf (c_type sliceValue) = Slice then
           Inr (sliceValue\<lparr>c_slice := c_slice sliceValue @ [el]\<rparr>)
         else if KindOf (c_type sliceValue) = Map then
           (let keyType = Key (c_type sliceValue)
            in if length key = 1 then
                 (case AssignValue env keyType (key ! 0) of
                    Inl e \<Rightarrow> Inl e
                  | Inr ikey \<Rightarrow>
                      Inr (sliceValue\<lparr>c_map := (c_map sliceValue)(KeyV ikey \<mapsto> el)\<rparr>))
               else if KindOf keyType \<noteq> Slice then Inl ErrMapKeyCache
               else Inr (sliceValue\<lparr>c_map := (c_map sliceValue)(KeyPK key \<mapsto> el)\<rparr>))
         else Inr sliceValue)"

fun composeResult ::
  "env \<Rightarrow> gotype \<Rightarrow> (PK \<times> bean option) list \<Rightarrow> container \<Rightarrow> world \<Rightarrow> error option \<times> container \<times> world" where
  "composeResult env t [] sliceValue w = (None, sliceValue, w)"
| "composeResult env t ((key, None) # rest) sliceValue w =
     composeResult env t rest sliceValue (emit (Warnf ''[cache] cache no hit'') w)"
| "composeResult env t ((key, Some bean) # rest) sliceValue w =
     (case composeOne env t key bean sliceValue of
        Inl e \<Rightarrow> (Some e, sliceValue, w)
      | Inr c \<Rightarrow> composeResult env t rest c w)"

text \<open>\<open>cacheFind\<close>. The table is read from the statement after \<open>ConvertIDSQL\<close> found it there.\<close>

definition cacheFind ::
  "env \<Rightarrow> session \<Rightarrow> gotype \<Rightarrow> string \<Rightarrow> container \<Rightarrow> val list \<Rightarrow> world \<Rightarrow>
   error option \<times> container \<times> world" where
  "cacheFind env session t sqlStr0 rowsSlice args w =
     (if \<not> canCache env session \<or> IndexNoCase env sqlStr0 ''having'' \<noteq> - 1 \<or>
         IndexNoCase env sqlStr0 ''group by'' \<noteq> - 1
      then (Some ErrCacheFailed, rowsSlice, w)
      else
        let tableName = TableName session
        in if \<not> GetCacher env tableName then (None, rowsSlice, w)
           else
             let sqlStr = Filters env sqlStr0;
                 newsql = ConvertIDSQL env session sqlStr
             in if newsql = '''' then (Some ErrCacheFailed, rowsSlice, w)
                else
                  (case RefTable session of
                     None \<Rightarrow> (Some (Panic NilDereference), rowsSlice, w)
                   | Some table \<Rightarrow>
                       (case resolveIDList env table tableName newsql args w of
                          (Inl e, w1) \<Rightarrow> (Some e, rowsSlice, w1)
                        | (Inr ids, w1) \<Rightarrow>
                            (case resolveBeans env tableName table t 0 ids
                                    \<lparr>r_ides = [], r_ididxes = Map.empty,
                                     r_temps = replicate (length ids) None\<rparr> w1 of
                               (Inl e, w2) \<Rightarrow> (Some e, rowsSlice, w2)
                             | (Inr r, w2) \<Rightarrow>
                                 (case backfill env tableName table t r w2 of
                                    (Inl e, w3) \<Rightarrow> (Some e, rowsSlice, w3)
                                  | (Inr temps, w3) \<Rightarrow>
                                      composeResult env t (zip ids temps) rowsSlice w3)))))"

section \<open>Direct materialisation (session\_find.go, noCacheFind)\<close>

text \<open>
  The two closures \<open>containerValueSetFunc\<close>: append to the slice, or set the map entry
  under the key made from the primary key. Setting a composite key through \<open>reflect\<close> is
  left to a collaborator.
\<close>

definition sliceSet :: "bool \<Rightarrow> bean \<Rightarrow> PK \<Rightarrow> container \<Rightarrow> error + container" where
  "sliceSet isPointer newValue pk containerValue =
     Inr (containerValue\<lparr>c_slice := c_slice containerValue @
            [if isPointer then PtrTo newValue else ValOf newValue]\<rparr>)"

definition mapSet ::
  "env \<Rightarrow> Table \<Rightarrow> gotype \<Rightarrow> bool \<Rightarrow> bean \<Rightarrow> PK \<Rightarrow> container \<Rightarrow> error + container" where
  "mapSet env table keyType isPointer newValue pk containerValue =
     (case (if length (PrimaryKeys table) = 1 then
              (case pk of
                 [] \<Rightarrow> Inl (Panic IndexOutOfRange)
               | v # _ \<Rightarrow> (case AssignValue env keyType v of Inl e \<Rightarrow> Inl e | Inr k \<Rightarrow> Inr (KeyV k)))
            else SetCompositeKey env keyType pk) of
        Inl e \<Rightarrow> Inl e
      | Inr keyValue \<Rightarrow>
          Inr (containerValue\<lparr>c_map := (c_map containerValue)
                 (keyValue \<mapsto> (if isPointer then PtrTo newValue else ValOf newValue))\<rparr>))"

text \<open>
  Modelled from the spec: \<open>Session.rows2Beans\<close> is not under src/. The spec (4.2, 4.3) says
  that the materialiser allocates a new object per row of the cursor, that a row which
  fails to convert aborts the remaining rows, and that each object is handed to the
  container in result order.
\<close>

fun rows2Beans ::
  "env \<Rightarrow> Table \<Rightarrow> gotype \<Rightarrow> (bean \<Rightarrow> PK \<Rightarrow> container \<Rightarrow> error + container) \<Rightarrow> raw list \<Rightarrow>
   error option \<Rightarrow> container \<Rightarrow> error option \<times> container" where
  "rows2Beans env tb elemType setFunc [] rerr c = (rerr, c)"
| "rows2Beans env tb elemType setFunc (row # rows) rerr c =
     (case row2Bean env tb elemType row of
        Inl e \<Rightarrow> (Some e, c)
      | Inr (b, pk) \<Rightarrow>
          (case setFunc b pk c of
             Inl e \<Rightarrow> (Some e, c)
           | Inr c' \<Rightarrow> rows2Beans env tb elemType setFunc rows rerr c'))"

text \<open>Lines 312 to 332: the loop for elements that are not structs; the key passed is \<open>nil\<close>.\<close>

fun scanRows ::
  "env \<Rightarrow> gotype \<Rightarrow> (bean \<Rightarrow> PK \<Rightarrow> container \<Rightarrow> error + container) \<Rightarrow> raw list \<Rightarrow>
   error option \<Rightarrow> container \<Rightarrow> error option \<times> container" where
  "scanRows env elemType setFunc [] rerr c = (rerr, c)"
| "scanRows env elemType setFunc (row # rows) rerr c =
     (case scanValue env elemType row of
        Inl e \<Rightarrow> (Some e, c)
      | Inr b \<Rightarrow>
          (case setFunc b [] c of
             Inl e \<Rightarrow> (Some e, c)
           | Inr c' \<Rightarrow> scanRows env elemType setFunc rows rerr c'))"

text \<open>
  \<open>noCacheFind\<close>. The pointer-to-pointer check comes before \<open>queryRows\<close>; the checks on the
  map key come after \<open>queryRows\<close>, \<open>rows.Columns\<close> and \<open>rows.ColumnTypes\<close>. The table is a
  pointer that is \<open>nil\<close> when the statement has no \<open>RefTable\<close>.
\<close>

definition materialise ::
  "env \<Rightarrow> gotype \<Rightarrow> (bean \<Rightarrow> PK \<Rightarrow> container \<Rightarrow> error + container) \<Rightarrow> Rows \<Rightarrow> string list \<Rightarrow>
   string list \<Rightarrow> container \<Rightarrow> error option \<times> container" where
  "materialise env elemType setFunc rows fs types containerValue =
     (if KindOf elemType = Struct then
        (case ParseWithCache env elemType of
           Inl e \<Rightarrow> (Some e, containerValue)
         | Inr tb \<Rightarrow>
             (case ParseColumnsSchema (ToLower env) fs types (Some tb) of
                Inl p \<Rightarrow> (Some (Panic p), containerValue)
              | Inr columnsSchema \<Rightarrow>
                  (case rows2Beans env tb elemType setFunc (rows_data rows) (rows_err rows)
                          containerValue of
                     (Some e, c) \<Rightarrow> (Some e, c)
                   | (None, c) \<Rightarrow> (executeProcessors env, c))))
      else scanRows env elemType setFunc (rows_data rows) (rows_err rows) containerValue)"

definition noCacheFind ::
  "env \<Rightarrow> Table option \<Rightarrow> container \<Rightarrow> string \<Rightarrow> val list \<Rightarrow> world \<Rightarrow>
   error option \<times> container \<times> world" where
  "noCacheFind env table containerValue sqlStr args w =
     (let elemType0 = Elem (c_type containerValue);
          isPointer = (KindOf elemType0 = Ptr);
          elemType = (if isPointer then Elem elemType0 else elemType0)
      in if KindOf elemType = Ptr then (Some ErrPtrToPtr, containerValue, w)
         else
           let w1 = emit (QueryRows sqlStr args) w
           in case queryRows env sqlStr args of
                Inl e \<Rightarrow> (Some e, containerValue, w1)
              | Inr rows \<Rightarrow>
                  (case rows_columns rows of
                     Inl e \<Rightarrow> (Some e, containerValue, w1)
                   | Inr fs \<Rightarrow>
                       (case rows_types rows of
                          Inl e \<Rightarrow> (Some e, containerValue, w1)
                        | Inr types \<Rightarrow>
                            if KindOf (c_type containerValue) = Slice then
                              (case materialise env elemType (sliceSet isPointer) rows fs types
                                      containerValue of
                                 (err, c) \<Rightarrow> (err, c, w1))
                            else
                              (case table of
                                 None \<Rightarrow> (Some (Panic NilDereference), containerValue, w1)
                               | Some tb \<Rightarrow>
                                   let keyType = Key (c_type containerValue)
                                   in if length (PrimaryKeys tb) = 0
                                      then (Some ErrMapKeyNoCache, containerValue, w1)
                                      else if length (PrimaryKeys tb) > 1 \<and> KindOf keyType \<noteq> Slice
                                      then (Some ErrMapKeyNoCache, containerValue, w1)
                                      else
                                        (case materialise env elemType
                                                (mapSet env tb keyType isPointer) rows fs types
                                                containerValue of
                                           (err, c) \<Rightarrow> (err, c, w1))))))"

section \<open>Find (session\_find.go, find)\<close>

datatype tp = tpStruct | tpNonStruct

text \<open>Lines 96 to 115: the statement gets its table from the element type when it has none.\<close>

definition setRef :: "env \<Rightarrow> session \<Rightarrow> gotype \<Rightarrow> error + session \<times> tp" where
  "setRef env s sliceElementType =
     (case RefTable s of
        Some tb \<Rightarrow> Inr (s, tpStruct)
      | None \<Rightarrow>
          if KindOf sliceElementType = Ptr then
            (if KindOf (Elem sliceElementType) = Struct then
               (case SetRefValue env (Elem sliceElementType) of
                  Inl e \<Rightarrow> Inl e
                | Inr (tb, nm) \<Rightarrow> Inr (s\<lparr>RefTable := Some tb, TableName := nm\<rparr>, tpStruct))
             else Inr (s, tpNonStruct))
          else if KindOf sliceElementType = Struct then
            (case SetRefValue env sliceElementType of
               Inl e \<Rightarrow> Inl e
             | Inr (tb, nm) \<Rightarrow> Inr (s\<lparr>RefTable := Some tb, TableName := nm\<rparr>, tpStruct))
          else Inr (s, tpNonStruct))"

text \<open>
  Lines 122 to 137: the automatic condition, from the first condition bean
  (\<open>tagParser.Parse\<close> and \<open>BuildConds\<close>, one collaborator) or from the soft-delete column.
\<close>

definition autoCondition :: "env \<Rightarrow> session \<Rightarrow> tp \<Rightarrow> bean list \<Rightarrow> error + cond option" where
  "autoCondition env s ty condiBean =
     (if ty = tpStruct then
        (case (NoAutoCondition s, condiBean) of
           (False, cb # _) \<Rightarrow>
             (case BuildConds env cb of Inl e \<Rightarrow> Inl e | Inr c \<Rightarrow> Inr (Some c))
         | _ \<Rightarrow>
             (case RefTable s of
                None \<Rightarrow> Inl (Panic NilDereference)
              | Some table \<Rightarrow>
                  (case tbl_deleted table of
                     Some col \<Rightarrow> if \<not> Unscoped s then Inr (Some (CondDeleted col)) else Inr None
                   | None \<Rightarrow> Inr None)))
      else Inr None)"

text \<open>Lines 139 to 144: a map with \<open>Cols\<close> also selects the primary-key columns.\<close>

definition addPKColumns :: "env \<Rightarrow> session \<Rightarrow> bool \<Rightarrow> error + session" where
  "addPKColumns env s isMap =
     (if isMap \<and> ColumnMap s \<noteq> [] then
        (case RefTable s of
           None \<Rightarrow> Inl (Panic NilDereference)
         | Some table \<Rightarrow> Inr (s\<lparr>ColumnMap := foldl (ColumnMapAdd env) (ColumnMap s) (PrimaryKeys table)\<rparr>))
      else Inr s)"

text \<open>
  Lines 83 to 149 of \<open>find\<close>: everything before the choice between the cache and the direct
  path. No step of it sends a query or reads the cache. The result is the statement as the
  later steps see it, the SQL text and its arguments.
\<close>

definition prepare ::
  "env \<Rightarrow> session \<Rightarrow> container \<Rightarrow> bean list \<Rightarrow> error + session \<times> string \<times> val list" where
  "prepare env s0 sliceValue condiBean =
     (case LastError s0 of
        Some e \<Rightarrow> Inl e
      | None \<Rightarrow>
          let isSlice = (KindOf (c_type sliceValue) = Slice);
              isMap = (KindOf (c_type sliceValue) = Map)
          in if \<not> isSlice \<and> \<not> isMap then Inl ErrNeedSliceOrMap
             else
               (case setRef env s0 (Elem (c_type sliceValue)) of
                  Inl e \<Rightarrow> Inl e
                | Inr (s1, ty) \<Rightarrow>
                    (case autoCondition env s1 ty condiBean of
                       Inl e \<Rightarrow> Inl e
                     | Inr autoCond \<Rightarrow>
                         (case addPKColumns env s1 isMap of
                            Inl e \<Rightarrow> Inl e
                          | Inr s2 \<Rightarrow>
                              (case GenFindSQL env s2 autoCond of
                                 Inl e \<Rightarrow> Inl e
                               | Inr (sqlStr, args) \<Rightarrow> Inr (s2, sqlStr, args))))))"

text \<open>
  \<open>find\<close>, lines 151 to 163: the cache path when the statement and the table allow it, the
  direct path otherwise and when \<open>cacheFind\<close> returns \<open>ErrCacheFailed\<close>.
\<close>

definition find ::
  "env \<Rightarrow> session \<Rightarrow> container \<Rightarrow> bean list \<Rightarrow> world \<Rightarrow> error option \<times> container \<times> world" where
  "find env s0 sliceValue condiBean w =
     (case prepare env s0 sliceValue condiBean of
        Inl e \<Rightarrow> (Some e, sliceValue, w)
      | Inr (s, sqlStr, args) \<Rightarrow>
          if ColumnMap s = [] \<and> canCache env s then
            (if GetCacher env (TableName s) \<and> \<not> IsDistinct s \<and> \<not> Unscoped s then
               (case cacheFind env s (Elem (c_type sliceValue)) sqlStr sliceValue args w of
                  (err, c, w1) \<Rightarrow>
                    if err \<noteq> Some ErrCacheFailed then (err, c, w1)
                    else noCacheFind env (RefTable s) c sqlStr args
                           (emit (Warnf ''Cache Find Failed'') w1))
             else noCacheFind env (RefTable s) sliceValue sqlStr args w)
          else noCacheFind env (RefTable s) sliceValue sqlStr args w)"

section \<open>Cache invalidation on insert (session\_insert.go, engine.go)\<close>


text \<open>\<open>Engine.ClearCacheBean\<close>, with the table name that \<open>dialects.FullTableName\<close> gave.\<close>

definition ClearCacheBean :: "env \<Rightarrow> string \<Rightarrow> string \<Rightarrow> world \<Rightarrow> error option \<times> world" where
  "ClearCacheBean env tableName ident w =
     (if GetCacher env tableName then (None, DelBean tableName ident (ClearIds tableName w))
      else (None, w))"









section \<open>A small database for concrete runs\<close>

text \<open>
  A table \<open>user(id, name)\<close> with primary key \<open>id\<close>, an engine with a cacher for that table
  only, and collaborators that answer every query with the rows given. Keys are compared
  through their text.
\<close>

definition demo_table :: Table where
  "demo_table =
     \<lparr>tbl_name = ''user'',
      tbl_columns = [\<lparr>col_name = ''id'', col_field_index = 0\<rparr>,
                     \<lparr>col_name = ''name'', col_field_index = 1\<rparr>],
      PrimaryKeys = [''id''], tbl_deleted = None, AutoIncrement = ''''\<rparr>"

definition demo_fields :: "raw \<Rightarrow> (string \<times> val) list" where
  "demo_fields r = zip [''id'', ''name''] r"

fun demo_val_string :: "val \<Rightarrow> string" where
  "demo_val_string (StrV s) = s"
| "demo_val_string (IntV i) = (if i < 0 then ''-'' else ''+'') @ replicate (nat \<bar>i\<bar>) CHR ''1''"
| "demo_val_string NilV = ''nil''"

definition demo_pk_string :: "PK \<Rightarrow> error + string" where
  "demo_pk_string pk = Inr (concat (map (\<lambda>v. demo_val_string v @ '','') pk))"

definition demo_split :: "string \<Rightarrow> string \<Rightarrow> nat \<Rightarrow> string list" where
  "demo_split s sep n =
     (let i = strings_Index (ascii_ToLower s) (ascii_ToLower sep)
      in if i < 0 then [s] else [take (nat i) s, drop (nat i + length sep) s])"

definition demo_env :: "Table \<Rightarrow> raw list \<Rightarrow> env" where
  "demo_env table db =
     \<lparr>ToLower = ascii_ToLower,
      canCache = (\<lambda>s. RefTable s \<noteq> None \<and> UseCache s),
      GetCacher = (\<lambda>tn. tn = ''user''),
      Filters = (\<lambda>s. s),
      joinColumns = (\<lambda>cs. concat (map (\<lambda>c. c @ '' '') cs)),
      SplitNNoCase = demo_split,
      Itoa = (\<lambda>i. demo_val_string (IntV i)),
      isMSSQL = False,
      SetRefValue = (\<lambda>ty. Inr (table, ''user'')),
      BuildConds = (\<lambda>b. Inr (CondBean b)),
      ColumnMapAdd = (\<lambda>m c. m @ [c]),
      GenFindSQL = (\<lambda>s c. Inr (''SELECT * FROM user'', [])),
      queryRows = (\<lambda>sql args.
         Inr \<lparr>rows_columns = Inr [''id'', ''name''], rows_types = Inr [''INT'', ''TEXT''],
              rows_data = db, rows_err = None\<rparr>),
      scanPK = (\<lambda>tb r. Inr (take (length (PrimaryKeys tb)) r)),
      PKToString = demo_pk_string,
      IDOfV = (\<lambda>tb b. Inr (map (\<lambda>k. case map_of (bean_fields b) k of Some v \<Rightarrow> v | None \<Rightarrow> NilV)
                              (PrimaryKeys tb))),
      nestedFind = (\<lambda>tn ty ides.
         Inr (filter (\<lambda>fs. demo_pk_string (map snd (take (length (PrimaryKeys table)) fs))
                            \<in> demo_pk_string ` set ides)
                (map demo_fields db))),
      AssignValue = (\<lambda>ty v. Inr v),
      SetCompositeKey = (\<lambda>ty pk. Inr (KeyPK pk)),
      ParseWithCache = (\<lambda>ty. Inr table),
      row2Bean = (\<lambda>tb ty r. Inr (\<lparr>bean_type = ty, bean_fields = demo_fields r\<rparr>,
                                 take (length (PrimaryKeys tb)) r)),
      scanValue = (\<lambda>ty r. Inr \<lparr>bean_type = ty, bean_fields = demo_fields r\<rparr>),
      executeProcessors = None\<rparr>"

definition demo_session :: session where
  "demo_session =
     \<lparr>LastError = None, RefTable = None, TableName = '''', IsDistinct = False,
      Unscoped = False, ColumnMap = [], NoAutoCondition = False, UseCache = True,
      LimitN = None, isAutoCommit = True\<rparr>"

definition demo_world :: world where
  "demo_world = \<lparr>ids_cache = Map.empty, bean_cache = Map.empty, events = []\<rparr>"

definition demo_slice :: "gotype \<Rightarrow> container" where
  "demo_slice ty = \<lparr>c_type = SliceT ty, c_slice = [], c_map = Map.empty\<rparr>"


definition demo_db :: "raw list" where
  "demo_db = [[StrV ''1'', StrV ''a''], [StrV ''2'', StrV ''b'']]"

definition demo_bean :: "gotype \<Rightarrow> string \<Rightarrow> string \<Rightarrow> bean" where
  "demo_bean ty ident name = \<lparr>bean_type = ty, bean_fields = [(''id'', StrV ident), (''name'', StrV name)]\<rparr>"

definition demo_cached :: "string \<Rightarrow> bean \<Rightarrow> world" where
  "demo_cached sid b = demo_world\<lparr>bean_cache := [(''user'', sid) \<mapsto> b]\<rparr>"

definition demo_find_session :: session where
  "demo_find_session = demo_session\<lparr>RefTable := Some demo_table, TableName := ''user''\<rparr>"



text \<open>
  The effect of an invalidation on the store: every id list of the table is gone, the id
  lists of the other tables and all beans are as before.
\<close>

definition ids_cleared :: "string \<Rightarrow> world \<Rightarrow> world \<Rightarrow> bool" where
  "ids_cleared tn w w' =
     ((\<forall>sql args. ids_cache w' (tn, sql, args) = None) \<and>
      (\<forall>t' sql args. t' \<noteq> tn \<longrightarrow> ids_cache w' (t', sql, args) = ids_cache w (t', sql, args)) \<and>
      bean_cache w' = bean_cache w)"





section \<open>Notions used in the statements\<close>

text \<open>The number of columns before column \<open>i\<close> with the same lower-cased name.\<close>

definition earlier_same :: "(string \<Rightarrow> string) \<Rightarrow> string list \<Rightarrow> nat \<Rightarrow> nat" where
  "earlier_same lower fieldNames i =
     length (filter (\<lambda>n. lower n = lower (fieldNames ! i)) (take i fieldNames))"

text \<open>
  The SQL of the ID-only query as \<open>cacheFind\<close> builds it, and the conditions under which
  \<open>find\<close> calls \<open>cacheFind\<close> and \<open>cacheFind\<close> reaches the id list (lines 151 to 154 and 336
  to 355).
\<close>

definition idsql :: "env \<Rightarrow> session \<Rightarrow> string \<Rightarrow> string" where
  "idsql env s sqlStr = ConvertIDSQL env s (Filters env sqlStr)"

definition cache_path :: "env \<Rightarrow> session \<Rightarrow> string \<Rightarrow> bool" where
  "cache_path env s sqlStr =
     (ColumnMap s = [] \<and> canCache env s \<and> GetCacher env (TableName s) \<and>
      IsDistinct s = False \<and> Unscoped s = False \<and>
      IndexNoCase env sqlStr ''having'' = - 1 \<and> IndexNoCase env sqlStr ''group by'' = - 1 \<and>
      idsql env s sqlStr \<noteq> '''')"

text \<open>The state of the three loop variables of \<open>cacheFind\<close> before the first id.\<close>

definition resolved0 :: "nat \<Rightarrow> resolved" where
  "resolved0 n = \<lparr>r_ides = [], r_ididxes = Map.empty, r_temps = replicate n None\<rparr>"

text \<open>
  The element that the composition puts into the destination for a bean, and the slots
  of \<open>temps\<close> (beside their ids) that hold a bean, in order.
\<close>

definition elem_of :: "gotype \<Rightarrow> bean \<Rightarrow> elem" where
  "elem_of t bean = (if KindOf t = Ptr then PtrTo bean else ValOf bean)"

definition filled :: "(PK \<times> bean option) list \<Rightarrow> (PK \<times> bean option) list" where
  "filled kts = filter (\<lambda>kb. snd kb \<noteq> None) kts"

definition beans_of :: "(PK \<times> bean option) list \<Rightarrow> bean list" where
  "beans_of kts = List.map_filter snd kts"

definition empty_slots :: "(PK \<times> bean option) list \<Rightarrow> nat" where
  "empty_slots kts = length (filter (\<lambda>kb. snd kb = None) kts)"

definition warn_no_hit :: "nat \<Rightarrow> world \<Rightarrow> world" where
  "warn_no_hit n w = w\<lparr>events := events w @ replicate n (Warnf ''[cache] cache no hit'')\<rparr>"

text \<open>
  The world without the beans of a table that \<open>isHit\<close> rejects for the element type \<open>t\<close>,
  what a look-up counts as (the bean when \<open>isHit\<close> accepts it, nothing otherwise), and two
  worlds that differ only in rejected beans.
\<close>

definition without_mismatched :: "gotype \<Rightarrow> string \<Rightarrow> world \<Rightarrow> world" where
  "without_mismatched t tableName w =
     w\<lparr>bean_cache := (\<lambda>k. if fst k = tableName \<and> isHit t (bean_cache w k) = False then None
                            else bean_cache w k)\<rparr>"

definition hit_of :: "gotype \<Rightarrow> bean option \<Rightarrow> bean option" where
  "hit_of t bean = (if isHit t bean then bean else None)"

definition same_hits :: "gotype \<Rightarrow> string \<Rightarrow> world \<Rightarrow> world \<Rightarrow> bool" where
  "same_hits t tableName w w' =
     (ids_cache w = ids_cache w' \<and> events w = events w' \<and>
      (\<forall>sid. hit_of t (GetBean w tableName sid) = hit_of t (GetBean w' tableName sid)))"

text \<open>
  The keys of the rows of an ID-only query that all scan and convert, and the elements
  that the direct path makes of the rows of a cursor that all materialise.
\<close>

definition scanned_keys :: "env \<Rightarrow> Table \<Rightarrow> raw list \<Rightarrow> PK list" where
  "scanned_keys env table rows = map (\<lambda>row. projr (scanPK env table row)) rows"

definition all_scan :: "env \<Rightarrow> Table \<Rightarrow> raw list \<Rightarrow> bool" where
  "all_scan env table rows = list_all (\<lambda>row. isl (scanPK env table row) = False) rows"

definition row_elems :: "env \<Rightarrow> Table \<Rightarrow> gotype \<Rightarrow> bool \<Rightarrow> raw list \<Rightarrow> elem list" where
  "row_elems env tb elemType isPointer rows =
     map (\<lambda>row. let b = fst (projr (row2Bean env tb elemType row))
                in if isPointer then PtrTo b else ValOf b) rows"

definition all_materialise :: "env \<Rightarrow> Table \<Rightarrow> gotype \<Rightarrow> raw list \<Rightarrow> bool" where
  "all_materialise env tb elemType rows =
     list_all (\<lambda>row. isl (row2Bean env tb elemType row) = False) rows"

definition scan_elems :: "env \<Rightarrow> gotype \<Rightarrow> bool \<Rightarrow> raw list \<Rightarrow> elem list" where
  "scan_elems env elemType isPointer rows =
     map (\<lambda>row. let b = projr (scanValue env elemType row)
                in if isPointer then PtrTo b else ValOf b) rows"

definition all_scan_values :: "env \<Rightarrow> gotype \<Rightarrow> raw list \<Rightarrow> bool" where
  "all_scan_values env elemType rows =
     list_all (\<lambda>row. isl (scanValue env elemType row) = False) rows"

text \<open>The element type of the destination with one pointer level removed, as \<open>noCacheFind\<close> takes it.\<close>

definition elem_type :: "container \<Rightarrow> gotype" where
  "elem_type c = (if KindOf (Elem (c_type c)) = Ptr then Elem (Elem (c_type c)) else Elem (c_type c))"

definition demo_big :: "raw list" where
  "demo_big = replicate 501 [StrV ''1'', StrV ''a'']"

text \<open>
  The text of a key and of a bean's own key (nothing when \<open>IDOfV\<close> or \<open>ToString\<close> fails), and
  what the cache gives for an id: the cached bean when \<open>isHit\<close> accepts it.
\<close>

definition pk_sid :: "env \<Rightarrow> PK \<Rightarrow> string option" where
  "pk_sid env pk = (case PKToString env pk of Inl e \<Rightarrow> None | Inr sid \<Rightarrow> Some sid)"

definition bean_sid :: "env \<Rightarrow> Table \<Rightarrow> bean \<Rightarrow> string option" where
  "bean_sid env table b = (case IDOfV env table b of Inl e \<Rightarrow> None | Inr pk \<Rightarrow> pk_sid env pk)"

definition hit_at :: "env \<Rightarrow> string \<Rightarrow> gotype \<Rightarrow> world \<Rightarrow> PK \<Rightarrow> bean option" where
  "hit_at env tn t w pk =
     (case pk_sid env pk of None \<Rightarrow> None | Some sid \<Rightarrow> hit_of t (GetBean w tn sid))"

text \<open>
  A slot of \<open>temps\<close> agrees with the id at its index when it is empty or holds a bean whose
  own key has the text of that id; \<open>slots_match\<close> says so of every index.
\<close>

definition slot_ok :: "env \<Rightarrow> Table \<Rightarrow> PK \<Rightarrow> bean option \<Rightarrow> bool" where
  "slot_ok env table pk slot =
     (case slot of
        None \<Rightarrow> True
      | Some b \<Rightarrow> pk_sid env pk \<noteq> None \<and> bean_sid env table b = pk_sid env pk)"

definition slots_match :: "env \<Rightarrow> Table \<Rightarrow> PK list \<Rightarrow> bean option list \<Rightarrow> bool" where
  "slots_match env table ids temps = list_all2 (slot_ok env table) ids temps"

text \<open>The beans that \<open>backfill\<close> makes of the rows of the nested find, of the element type \<open>t\<close>.\<close>

definition typed_beans :: "gotype \<Rightarrow> (string \<times> val) list list \<Rightarrow> bean list" where
  "typed_beans t vs =
     map (\<lambda>fs. \<lparr>bean_type = (if KindOf t = Ptr then Elem t else t), bean_fields = fs\<rparr>) vs"

text \<open>
  The nested find answers within what it was asked: every bean it returns has a key whose
  text is the text of one of the missed ids (an entry of \<open>ididxes\<close>).
\<close>

definition backfill_within :: "env \<Rightarrow> Table \<Rightarrow> (string \<rightharpoonup> nat) \<Rightarrow> bean list \<Rightarrow> bool" where
  "backfill_within env table ididxes bs =
     list_all (\<lambda>b. case bean_sid env table b of None \<Rightarrow> True | Some sid \<Rightarrow> ididxes sid \<noteq> None) bs"

text \<open>
  What holds of the loop variables of \<open>cacheFind\<close> after the ids \<open>xs\<close> have been looked up in
  the world \<open>w\<close>, with \<open>n\<close> slots in \<open>temps\<close>.
\<close>

definition resolve_inv ::
  "env \<Rightarrow> string \<Rightarrow> Table \<Rightarrow> gotype \<Rightarrow> world \<Rightarrow> nat \<Rightarrow> PK list \<Rightarrow> resolved \<Rightarrow> bool" where
  "resolve_inv env tn tb t w n xs r =
     (length (r_temps r) = n \<and>
      (\<forall>j<n. r_temps r ! j = (if j < length xs then hit_at env tn t w (xs ! j) else None)) \<and>
      r_ides r = filter (\<lambda>pk. hit_at env tn t w pk = None) xs \<and>
      (\<forall>sid j. r_ididxes r sid = Some j \<longrightarrow>
          j < length xs \<and> pk_sid env (xs ! j) = Some sid \<and> hit_at env tn t w (xs ! j) = None) \<and>
      (\<forall>j<length xs. hit_at env tn t w (xs ! j) = None \<longrightarrow>
          (\<exists>sid k. pk_sid env (xs ! j) = Some sid \<and> r_ididxes r sid = Some k)) \<and>
      (\<forall>j<length xs. pk_sid env (xs ! j) \<noteq> None \<and>
          (\<forall>b. hit_at env tn t w (xs ! j) = Some b \<longrightarrow>
               bean_sid env tb b = pk_sid env (xs ! j))))"

text \<open>The index of \<open>temps\<close> at which \<open>placeOne\<close> stores a bean, and the store itself.\<close>

definition slot_index :: "env \<Rightarrow> Table \<Rightarrow> (string \<rightharpoonup> nat) \<Rightarrow> bean \<Rightarrow> nat" where
  "slot_index env tb ididxes b =
     (case bean_sid env tb b of
        None \<Rightarrow> 0
      | Some sid \<Rightarrow> (case ididxes sid of None \<Rightarrow> 0 | Some i \<Rightarrow> i))"

definition place_upd :: "env \<Rightarrow> Table \<Rightarrow> (string \<rightharpoonup> nat) \<Rightarrow> bean option list \<Rightarrow> bean \<Rightarrow> bean option list" where
  "place_upd env tb ididxes temps b = temps[slot_index env tb ididxes b := Some b]"

text \<open>
  One bean of the backfill, and a nested find that answers from a fixed table content:
  for any ids it returns the rows whose key text is the text of one of them, every row
  has a key text, and no two rows share one.
\<close>

definition typed_bean :: "gotype \<Rightarrow> (string \<times> val) list \<Rightarrow> bean" where
  "typed_bean t fs = \<lparr>bean_type = (if KindOf t = Ptr then Elem t else t), bean_fields = fs\<rparr>"

definition answers_from ::
  "env \<Rightarrow> Table \<Rightarrow> string \<Rightarrow> gotype \<Rightarrow> (string \<times> val) list list \<Rightarrow> bool" where
  "answers_from env table tn t rows =
     ((\<forall>ides. nestedFind env tn t ides =
          Inr (filter (\<lambda>fs. bean_sid env table (typed_bean t fs) \<in> pk_sid env ` set ides) rows)) \<and>
      list_all (\<lambda>fs. bean_sid env table (typed_bean t fs) \<noteq> None) rows \<and>
      distinct (map (\<lambda>fs. bean_sid env table (typed_bean t fs)) rows))"

text \<open>
  The beans that the backfill for the missed ids \<open>ides\<close> makes of such a table content, and
  the events that are ID-only queries (\<open>cacheFind\<close> runs no other query through
  \<open>queryRows\<close>; the nested find is logged as \<open>Backfill\<close>).
\<close>

definition backfilled :: "env \<Rightarrow> Table \<Rightarrow> gotype \<Rightarrow> PK list \<Rightarrow> (string \<times> val) list list \<Rightarrow> bean list" where
  "backfilled env table t ides rows =
     map (typed_bean t)
       (filter (\<lambda>fs. bean_sid env table (typed_bean t fs) \<in> pk_sid env ` set ides) rows)"

fun is_id_query :: "event \<Rightarrow> bool" where
  "is_id_query (QueryRows sql args) = True"
| "is_id_query ev = False"

section \<open>Properties of the column schema resolver\<close>

lemma assignTempIndex_length: "length (assignTempIndex m fs) = length fs"
  by (induction fs arbitrary: m) (auto simp: Let_def)

lemma assignTempIndex_nth:
  "i < length fs \<Longrightarrow>
   assignTempIndex m fs ! i =
     (fs ! i)\<lparr>TempIndex :=
        (let k = length (filter (\<lambda>f. LowerFieldName f = LowerFieldName (fs ! i)) (take i fs))
         in case m (LowerFieldName (fs ! i)) of None \<Rightarrow> k | Some j \<Rightarrow> j + 1 + k)\<rparr>"
proof (induction fs arbitrary: m i)
  case Nil
  then show ?case by simp
next
  case (Cons f fs)
  show ?case
  proof (cases i)
    case 0
    then show ?thesis by (simp add: Let_def split: option.splits)
  next
    case (Suc j)
    with Cons.prems have j: "j < length fs" by simp
    show ?thesis using Cons.IH[OF j] Suc
      by (auto simp: Let_def split: option.splits)
  qed
qed

lemma newFields_nth:
  assumes "length fieldNames \<le> length types" and "i < length fieldNames"
  shows "newFields lower fieldNames types ! i =
           \<lparr>FieldName = fieldNames ! i, LowerFieldName = lower (fieldNames ! i),
            ColumnType = types ! i, TempIndex = 0, ColumnSchema = None\<rparr>"
  using assms by (simp add: newFields_def)

lemma newFields_length:
  "length fieldNames \<le> length types \<Longrightarrow> length (newFields lower fieldNames types) = length fieldNames"
  by (simp add: newFields_def)

lemma filter_newFields_zip:
  "length xs = length ys \<Longrightarrow>
   length (filter (\<lambda>f. LowerFieldName f = x)
             (map (\<lambda>(fieldName, ty).
                \<lparr>FieldName = fieldName, LowerFieldName = lower fieldName, ColumnType = ty,
                 TempIndex = 0, ColumnSchema = None\<rparr>) (zip xs ys)))
   = length (filter (\<lambda>n. lower n = x) xs)"
  by (induction xs ys rule: list_induct2) auto

lemma newFields_earlier:
  assumes "length fieldNames \<le> length types" and "i < length fieldNames"
  shows "length (filter (\<lambda>f. LowerFieldName f = lower (fieldNames ! i))
                   (take i (newFields lower fieldNames types)))
         = earlier_same lower fieldNames i"
proof -
  have "take i (newFields lower fieldNames types)
        = map (\<lambda>(fieldName, ty).
            \<lparr>FieldName = fieldName, LowerFieldName = lower fieldName, ColumnType = ty,
             TempIndex = 0, ColumnSchema = None\<rparr>) (zip (take i fieldNames) (take i types))"
    by (simp add: newFields_def take_map take_zip)
  moreover have "length (take i fieldNames) = length (take i types)"
    using assms by simp
  ultimately show ?thesis
    unfolding earlier_same_def
    using filter_newFields_zip[of "take i fieldNames" "take i types" "lower (fieldNames ! i)" lower]
    by simp
qed

lemma assigned_field:
  assumes "length fieldNames \<le> length types" and "i < length fieldNames"
  shows "assignTempIndex Map.empty (newFields lower fieldNames types) ! i =
           \<lparr>FieldName = fieldNames ! i, LowerFieldName = lower (fieldNames ! i),
            ColumnType = types ! i, TempIndex = earlier_same lower fieldNames i,
            ColumnSchema = None\<rparr>"
proof -
  have i: "i < length (newFields lower fieldNames types)"
    using assms by (simp add: newFields_length)
  show ?thesis
    using assignTempIndex_nth[OF i, of Map.empty] newFields_nth[OF assms, of lower]
      newFields_earlier[OF assms, of lower]
    by (simp add: Let_def)
qed

text \<open>
  C5. For every ordered list of result column names, \<open>ParseColumnsSchema\<close> gives column \<open>i\<close>
  the \<open>TempIndex\<close> that counts the earlier columns with the same lower-cased name (so the
  first occurrence gets 0), and binds it to the struct column found case-insensitively by
  that name and index: the column at that position among the same-named struct columns,
  and no column when the index is not below their number or when there is no table.
\<close>

theorem ParseColumnsSchema_index_and_binding:
  assumes "length fieldNames \<le> length types" and "i < length fieldNames"
  shows "\<exists>fs. ParseColumnsSchema lower fieldNames types table = Inr fs
           \<and> length fs = length fieldNames
           \<and> FieldName (fs ! i) = fieldNames ! i
           \<and> LowerFieldName (fs ! i) = lower (fieldNames ! i)
           \<and> TempIndex (fs ! i) = earlier_same lower fieldNames i
           \<and> (TempIndex (fs ! i) = 0 \<longleftrightarrow>
                lower (fieldNames ! i) \<notin> lower ` set (take i fieldNames))
           \<and> ColumnSchema (fs ! i) =
               (case table of
                  None \<Rightarrow> None
                | Some tb \<Rightarrow>
                    let same = filter (\<lambda>c. lower (col_name c) = lower (fieldNames ! i))
                                 (tbl_columns tb)
                    in if earlier_same lower fieldNames i < length same
                       then Some (same ! earlier_same lower fieldNames i) else None)"
proof -
  let ?fs = "assignTempIndex Map.empty (newFields lower fieldNames types)"
  have len: "length ?fs = length fieldNames"
    using assms by (simp add: assignTempIndex_length newFields_length)
  have fld: "?fs ! i = \<lparr>FieldName = fieldNames ! i, LowerFieldName = lower (fieldNames ! i),
            ColumnType = types ! i, TempIndex = earlier_same lower fieldNames i,
            ColumnSchema = None\<rparr>"
    by (rule assigned_field[OF assms])
  have zero: "earlier_same lower fieldNames i = 0 \<longleftrightarrow>
                lower (fieldNames ! i) \<notin> lower ` set (take i fieldNames)"
    by (auto simp: earlier_same_def filter_empty_conv image_iff)
  show ?thesis
  proof (cases table)
    case None
    then show ?thesis using assms len fld zero
      by (simp add: ParseColumnsSchema_def)
  next
    case (Some tb)
    then show ?thesis using assms len fld zero
      by (simp add: ParseColumnsSchema_def ParseTableSchema_def GetColumnIdx_def Let_def)
  qed
qed

theorem ParseColumnsSchema_index_and_binding_witness:
  "\<exists>fs. ParseColumnsSchema ascii_ToLower [''id'', ''Name'', ''ID'', ''iD''] [(), (), (), ()]
          (Some demo_table) = Inr fs
     \<and> length fs = 4
     \<and> TempIndex (fs ! 0) = 0 \<and> ColumnSchema (fs ! 0) = Some \<lparr>col_name = ''id'', col_field_index = 0\<rparr>
     \<and> TempIndex (fs ! 2) = 1 \<and> ColumnSchema (fs ! 2) = None"
proof -
  have l: "length [''id'', ''Name'', ''ID'', ''iD''] \<le> length [(), (), (), ()]" by simp
  have e0: "earlier_same ascii_ToLower [''id'', ''Name'', ''ID'', ''iD''] 0 = 0"
    by code_simp
  have e2: "earlier_same ascii_ToLower [''id'', ''Name'', ''ID'', ''iD''] 2 = 1"
    by code_simp
  have f0: "filter (\<lambda>c. ascii_ToLower (col_name c) = ascii_ToLower ''id'') (tbl_columns demo_table)
            = [\<lparr>col_name = ''id'', col_field_index = 0\<rparr>]"
    by code_simp
  have f2: "filter (\<lambda>c. ascii_ToLower (col_name c) = ascii_ToLower ''ID'') (tbl_columns demo_table)
            = [\<lparr>col_name = ''id'', col_field_index = 0\<rparr>]"
    by code_simp
  from ParseColumnsSchema_index_and_binding[OF l, of 0 ascii_ToLower "Some demo_table"]
       ParseColumnsSchema_index_and_binding[OF l, of 2 ascii_ToLower "Some demo_table"]
  show ?thesis
    by (auto simp: e0 e2 f0 f2 Let_def)
qed

section \<open>Properties of find and noCacheFind\<close>

lemma setRef_flags:
  "setRef env s0 ty = Inr (s, k) \<Longrightarrow>
   IsDistinct s = IsDistinct s0 \<and> Unscoped s = Unscoped s0 \<and> UseCache s = UseCache s0 \<and>
   ColumnMap s = ColumnMap s0 \<and> LastError s = LastError s0"
  by (auto simp: setRef_def split: option.splits if_splits sum.splits)

lemma addPKColumns_flags:
  "addPKColumns env s0 m = Inr s \<Longrightarrow>
   IsDistinct s = IsDistinct s0 \<and> Unscoped s = Unscoped s0 \<and> UseCache s = UseCache s0 \<and>
   RefTable s = RefTable s0 \<and> TableName s = TableName s0"
  by (auto simp: addPKColumns_def split: option.splits if_splits)

lemma prepare_flags:
  assumes "prepare env s0 dest condiBean = Inr (s, sqlStr, args)"
  shows "IsDistinct s = IsDistinct s0 \<and> Unscoped s = Unscoped s0 \<and> UseCache s = UseCache s0"
proof -
  from assms obtain s1 ty autoCond where
    a: "setRef env s0 (Elem (c_type dest)) = Inr (s1, ty)" and
    b: "addPKColumns env s1 (KindOf (c_type dest) = Map) = Inr s"
    by (auto simp: prepare_def Let_def split: option.splits if_splits sum.splits prod.splits)
  from setRef_flags[OF a] addPKColumns_flags[OF b] show ?thesis by simp
qed

lemma materialise_any: "\<exists>r. materialise env et setf rows fs types c = r"
  by simp

lemma noCacheFind_result_indep:
  "fst (noCacheFind env tb c sqlStr args w) = fst (noCacheFind env tb c sqlStr args w') \<and>
   fst (snd (noCacheFind env tb c sqlStr args w)) = fst (snd (noCacheFind env tb c sqlStr args w'))"
  by (simp add: noCacheFind_def Let_def split: sum.splits option.splits prod.splits)

lemma noCacheFind_caches:
  "ids_cache (snd (snd (noCacheFind env tb c sqlStr args w))) = ids_cache w \<and>
   bean_cache (snd (snd (noCacheFind env tb c sqlStr args w))) = bean_cache w"
  by (simp add: noCacheFind_def Let_def emit_def split: sum.splits option.splits prod.splits)

lemma cacheFind_keyword:
  "IndexNoCase env sqlStr ''group by'' \<noteq> - 1 \<or> IndexNoCase env sqlStr ''having'' \<noteq> - 1 \<Longrightarrow>
   cacheFind env s t sqlStr dest args w = (Some ErrCacheFailed, dest, w)"
  by (auto simp: cacheFind_def)

lemma find_bypass:
  assumes prep: "prepare env s0 dest condiBean = Inr (s, sqlStr, args)"
      and byp: "IsDistinct s0 \<or> Unscoped s0 \<or> IndexNoCase env sqlStr ''group by'' \<noteq> - 1 \<or>
                IndexNoCase env sqlStr ''having'' \<noteq> - 1"
  shows "find env s0 dest condiBean w =
           noCacheFind env (RefTable s) dest sqlStr args
             (if ColumnMap s = [] \<and> canCache env s \<and> GetCacher env (TableName s) \<and>
                 \<not> IsDistinct s \<and> \<not> Unscoped s
              then emit (Warnf ''Cache Find Failed'') w else w)"
proof (cases "IsDistinct s0 \<or> Unscoped s0")
  case True
  with prepare_flags[OF prep] have "IsDistinct s \<or> Unscoped s" by simp
  then show ?thesis using prep by (auto simp: find_def)
next
  case False
  with byp have kw: "IndexNoCase env sqlStr ''group by'' \<noteq> - 1 \<or>
                     IndexNoCase env sqlStr ''having'' \<noteq> - 1" by blast
  show ?thesis using prep by (simp add: find_def cacheFind_keyword[OF kw])
qed

text \<open>
  C6. When the statement asks for a distinct projection or is unscoped, or the generated
  SQL contains "group by" or "having" in any letter case, \<open>find\<close> is \<open>noCacheFind\<close> on the
  same SQL (after the warning "Cache Find Failed" in the keyword case): the error and the
  container it returns do not depend on what the cache holds, and the cache is left as it
  was.
\<close>

theorem find_bypasses_cache:
  assumes prep: "prepare env s0 dest condiBean = Inr (s, sqlStr, args)"
      and byp: "IsDistinct s0 \<or> Unscoped s0 \<or> IndexNoCase env sqlStr ''group by'' \<noteq> - 1 \<or>
                IndexNoCase env sqlStr ''having'' \<noteq> - 1"
  shows "(find env s0 dest condiBean w = noCacheFind env (RefTable s) dest sqlStr args w \<or>
          find env s0 dest condiBean w =
            noCacheFind env (RefTable s) dest sqlStr args (emit (Warnf ''Cache Find Failed'') w))
       \<and> fst (find env s0 dest condiBean (w\<lparr>ids_cache := ic, bean_cache := bc\<rparr>))
           = fst (find env s0 dest condiBean w)
       \<and> fst (snd (find env s0 dest condiBean (w\<lparr>ids_cache := ic, bean_cache := bc\<rparr>)))
           = fst (snd (find env s0 dest condiBean w))
       \<and> ids_cache (snd (snd (find env s0 dest condiBean w))) = ids_cache w
       \<and> bean_cache (snd (snd (find env s0 dest condiBean w))) = bean_cache w"
proof -
  let ?P = "ColumnMap s = [] \<and> canCache env s \<and> GetCacher env (TableName s) \<and>
            \<not> IsDistinct s \<and> \<not> Unscoped s"
  have f: "find env s0 dest condiBean v =
           noCacheFind env (RefTable s) dest sqlStr args
             (if ?P then emit (Warnf ''Cache Find Failed'') v else v)" for v
    by (rule find_bypass[OF prep byp])
  have 1: "find env s0 dest condiBean w = noCacheFind env (RefTable s) dest sqlStr args w \<or>
          find env s0 dest condiBean w =
            noCacheFind env (RefTable s) dest sqlStr args (emit (Warnf ''Cache Find Failed'') w)"
    using f[of w] by (cases ?P) simp_all
  have 2: "fst (find env s0 dest condiBean (w\<lparr>ids_cache := ic, bean_cache := bc\<rparr>))
           = fst (find env s0 dest condiBean w)"
    unfolding f using noCacheFind_result_indep by blast
  have 3: "fst (snd (find env s0 dest condiBean (w\<lparr>ids_cache := ic, bean_cache := bc\<rparr>)))
           = fst (snd (find env s0 dest condiBean w))"
    unfolding f using noCacheFind_result_indep by blast
  have 4: "ids_cache (snd (snd (find env s0 dest condiBean w))) = ids_cache w \<and>
           bean_cache (snd (snd (find env s0 dest condiBean w))) = bean_cache w"
    unfolding f using noCacheFind_caches[of env "RefTable s" dest sqlStr args]
    by (simp add: emit_def)
  from 1 2 3 4 show ?thesis by blast
qed

lemma demo_prepare:
  "prepare (demo_env demo_table db) (demo_session\<lparr>IsDistinct := d, Unscoped := u\<rparr>)
     (demo_slice (StructT ''User'')) [] =
   Inr (demo_session\<lparr>IsDistinct := d, Unscoped := u, RefTable := Some demo_table,
                     TableName := ''user''\<rparr>, ''SELECT * FROM user'', [])"
  by (simp add: prepare_def setRef_def autoCondition_def addPKColumns_def demo_env_def
      demo_session_def demo_slice_def demo_table_def Let_def)

theorem find_bypasses_cache_witness:
  "fst (find (demo_env demo_table demo_db) (demo_session\<lparr>IsDistinct := True, Unscoped := False\<rparr>)
          (demo_slice (StructT ''User'')) []
          (demo_world\<lparr>ids_cache := (\<lambda>k. Some []), bean_cache := Map.empty\<rparr>))
   = fst (find (demo_env demo_table demo_db) (demo_session\<lparr>IsDistinct := True, Unscoped := False\<rparr>)
          (demo_slice (StructT ''User'')) [] demo_world)"
proof -
  have d: "IsDistinct (demo_session\<lparr>IsDistinct := True, Unscoped := False\<rparr>) \<or>
           Unscoped (demo_session\<lparr>IsDistinct := True, Unscoped := False\<rparr>) \<or>
           IndexNoCase (demo_env demo_table demo_db) ''SELECT * FROM user'' ''group by'' \<noteq> - 1 \<or>
           IndexNoCase (demo_env demo_table demo_db) ''SELECT * FROM user'' ''having'' \<noteq> - 1"
    by simp
  from find_bypasses_cache[OF demo_prepare d, where w = demo_world and ic = "\<lambda>k. Some []"
      and bc = Map.empty]
  show ?thesis by blast
qed

section \<open>Properties of cacheFind\<close>

lemma cacheFind_staged:
  assumes "cache_path env s sqlStr" and "RefTable s = Some table"
  shows "cacheFind env s t sqlStr dest args w =
         (case resolveIDList env table (TableName s) (idsql env s sqlStr) args w of
            (Inl e, w1) \<Rightarrow> (Some e, dest, w1)
          | (Inr ids, w1) \<Rightarrow>
              (case resolveBeans env (TableName s) table t 0 ids (resolved0 (length ids)) w1 of
                 (Inl e, w2) \<Rightarrow> (Some e, dest, w2)
               | (Inr r, w2) \<Rightarrow>
                   (case backfill env (TableName s) table t r w2 of
                      (Inl e, w3) \<Rightarrow> (Some e, dest, w3)
                    | (Inr temps, w3) \<Rightarrow> composeResult env t (zip ids temps) dest w3)))"
  using assms unfolding cacheFind_def cache_path_def idsql_def resolved0_def Let_def
  by simp

lemma find_cache_path:
  assumes "prepare env s0 dest condiBean = Inr (s, sqlStr, args)" and "cache_path env s sqlStr"
  shows "find env s0 dest condiBean w =
         (case cacheFind env s (Elem (c_type dest)) sqlStr dest args w of
            (err, c, w1) \<Rightarrow>
              if err \<noteq> Some ErrCacheFailed then (err, c, w1)
              else noCacheFind env (RefTable s) c sqlStr args (emit (Warnf ''Cache Find Failed'') w1))"
  using assms by (simp add: find_def cache_path_def)

lemma resolveBeans_append:
  "resolveBeans env tn tb t idx (xs @ ys) r w =
     (case resolveBeans env tn tb t idx xs r w of
        (Inl e, w') \<Rightarrow> (Inl e, w')
      | (Inr r', w') \<Rightarrow> resolveBeans env tn tb t (idx + length xs) ys r' w')"
proof (induction xs arbitrary: idx r w)
  case Nil
  then show ?case by simp
next
  case (Cons x xs)
  show ?case
    by (simp add: Cons.IH split: sum.splits prod.splits)
qed

lemma resolveOne_world:
  "resolveOne env tn tb t idx idv r w = (Inr r', w') \<Longrightarrow> w' = w"
  by (auto simp: resolveOne_def split: sum.splits option.splits bool.splits if_splits)

lemma resolveBeans_world:
  "resolveBeans env tn tb t idx ids r w = (Inr r', w') \<Longrightarrow> w' = w"
proof (induction ids arbitrary: idx r w)
  case Nil
  then show ?case by simp
next
  case (Cons x xs)
  from Cons.prems obtain r1 w1 where
    s: "resolveOne env tn tb t idx x r w = (Inr r1, w1)" and
    l: "resolveBeans env tn tb t (idx + 1) xs r1 w1 = (Inr r', w')"
    by (auto split: sum.splits prod.splits)
  from resolveOne_world[OF s] Cons.IH[OF l] show ?case by simp
qed

lemma resolveBeans_mismatch_step:
  assumes "PKToString env idv = Inr sid"
      and "GetBean w tn sid = Some bean" and "isHit t (Some bean)"
      and "IDOfV env tb bean = Inr pk" and "PKToString env pk = Inr xid" and "sid \<noteq> xid"
  shows "resolveBeans env tn tb t idx (idv # post) r w =
           (Inl ErrCacheFailed, emit (Errorf ''[cache] error cache'') w)"
  using assms by (simp add: resolveOne_def)

text \<open>
  C10. A bean that \<open>cacheFind\<close> takes from the cache (present and of the right type) has its
  own primary key extracted and stringified; when that text differs from the key it was
  fetched under, the loop logs an error and \<open>cacheFind\<close> returns \<open>ErrCacheFailed\<close> with the
  destination untouched, so \<open>find\<close> continues with the direct path. The ids before it in
  the list have been handled without error.
\<close>

theorem cached_bean_key_mismatch:
  assumes prep: "prepare env s0 dest condiBean = Inr (s, sqlStr, args)"
      and path: "cache_path env s sqlStr"
      and tbl: "RefTable s = Some table"
      and ids: "resolveIDList env table (TableName s) (idsql env s sqlStr) args w
                  = (Inr (pre @ idv # post), w1)"
      and pre: "fst (resolveBeans env (TableName s) table (Elem (c_type dest)) 0 pre
                  (resolved0 (length (pre @ idv # post))) w1) = Inr r"
      and sid: "PKToString env idv = Inr sid"
      and bean: "GetBean w1 (TableName s) sid = Some bean"
      and hit: "isHit (Elem (c_type dest)) (Some bean)"
      and pk: "IDOfV env table bean = Inr pk"
      and xid: "PKToString env pk = Inr xid"
      and neq: "sid \<noteq> xid"
  shows "cacheFind env s (Elem (c_type dest)) sqlStr dest args w
           = (Some ErrCacheFailed, dest, emit (Errorf ''[cache] error cache'') w1)
       \<and> find env s0 dest condiBean w
           = noCacheFind env (RefTable s) dest sqlStr args
               (emit (Warnf ''Cache Find Failed'') (emit (Errorf ''[cache] error cache'') w1))"
proof -
  let ?t = "Elem (c_type dest)"
  let ?r0 = "resolved0 (length (pre @ idv # post))"
  obtain w' where p: "resolveBeans env (TableName s) table ?t 0 pre ?r0 w1 = (Inr r, w')"
    using pre by (cases "resolveBeans env (TableName s) table ?t 0 pre ?r0 w1") auto
  from resolveBeans_world[OF p] have w': "w' = w1" .
  have loop: "resolveBeans env (TableName s) table ?t 0 (pre @ idv # post) ?r0 w1
        = (Inl ErrCacheFailed, emit (Errorf ''[cache] error cache'') w1)"
    unfolding resolveBeans_append p w'
    using resolveBeans_mismatch_step[OF sid bean hit pk xid neq] by simp
  have cf: "cacheFind env s ?t sqlStr dest args w
           = (Some ErrCacheFailed, dest, emit (Errorf ''[cache] error cache'') w1)"
    unfolding cacheFind_staged[OF path tbl] ids using loop by simp
  show ?thesis
    using cf by (simp add: find_cache_path[OF prep path])
qed

lemma demo_prepare_plain:
  "prepare (demo_env demo_table db) demo_session (demo_slice (StructT ''User'')) [] =
   Inr (demo_find_session, ''SELECT * FROM user'', [])"
  by (simp add: prepare_def setRef_def autoCondition_def addPKColumns_def demo_env_def
      demo_session_def demo_slice_def demo_table_def demo_find_session_def Let_def)

lemma demo_idsql:
  "idsql (demo_env demo_table db) demo_find_session ''SELECT * FROM user'' = ''SELECT id  FROM user''"
  by code_simp

lemma demo_cache_path:
  "cache_path (demo_env demo_table db) demo_find_session ''SELECT * FROM user''"
  by code_simp

lemma demo_resolveIDList:
  assumes "ids_cache w (''user'', ''SELECT id  FROM user'', []) = None"
  shows "resolveIDList (demo_env demo_table demo_db) demo_table ''user'' ''SELECT id  FROM user'' [] w
   = (Inr [[StrV ''1''], [StrV ''2'']],
      PutCacheSql [[StrV ''1''], [StrV ''2'']] ''user'' ''SELECT id  FROM user'' []
        (emit (QueryRows ''SELECT id  FROM user'' []) w))"
  using assms
  by (simp add: resolveIDList_def GetCacheSql_def demo_env_def demo_db_def demo_table_def Let_def)

theorem cached_bean_key_mismatch_witness:
  "find (demo_env demo_table demo_db) demo_session (demo_slice (StructT ''User'')) []
     (demo_cached ''1,'' (demo_bean (StructT ''User'') ''9'' ''z''))
   = noCacheFind (demo_env demo_table demo_db) (Some demo_table) (demo_slice (StructT ''User''))
       ''SELECT * FROM user'' []
       (emit (Warnf ''Cache Find Failed'') (emit (Errorf ''[cache] error cache'')
         (PutCacheSql [[StrV ''1''], [StrV ''2'']] ''user'' ''SELECT id  FROM user'' []
           (emit (QueryRows ''SELECT id  FROM user'' [])
              (demo_cached ''1,'' (demo_bean (StructT ''User'') ''9'' ''z''))))))"
proof -
  let ?w = "demo_cached ''1,'' (demo_bean (StructT ''User'') ''9'' ''z'')"
  let ?w1 = "PutCacheSql [[StrV ''1''], [StrV ''2'']] ''user'' ''SELECT id  FROM user'' []
           (emit (QueryRows ''SELECT id  FROM user'' []) ?w)"
  let ?env = "demo_env demo_table demo_db"
  have tbl: "RefTable demo_find_session = Some demo_table"
    by (simp add: demo_find_session_def)
  have tn: "TableName demo_find_session = ''user''"
    by (simp add: demo_find_session_def)
  have ids: "resolveIDList ?env demo_table (TableName demo_find_session)
               (idsql ?env demo_find_session ''SELECT * FROM user'') [] ?w
             = (Inr ([] @ [StrV ''1''] # [[StrV ''2'']]), ?w1)"
    unfolding tn demo_idsql
    using demo_resolveIDList[of ?w] by (simp add: demo_cached_def demo_world_def)
  have pre: "fst (resolveBeans ?env (TableName demo_find_session) demo_table
                (Elem (c_type (demo_slice (StructT ''User'')))) 0 []
                (resolved0 (length ([] @ [StrV ''1''] # [[StrV ''2'']]))) ?w1)
             = Inr (resolved0 2)"
    by (simp add: numeral_2_eq_2)
  have sid: "PKToString ?env [StrV ''1''] = Inr ''1,''"
    by (simp add: demo_env_def demo_pk_string_def)
  have bean: "GetBean ?w1 (TableName demo_find_session) ''1,'' = Some (demo_bean (StructT ''User'') ''9'' ''z'')"
    by (simp add: tn GetBean_def PutCacheSql_def emit_def demo_cached_def)
  have hit: "isHit (Elem (c_type (demo_slice (StructT ''User''))))
               (Some (demo_bean (StructT ''User'') ''9'' ''z''))"
    by (simp add: isHit_def demo_slice_def demo_bean_def)
  have pk: "IDOfV ?env demo_table (demo_bean (StructT ''User'') ''9'' ''z'') = Inr [StrV ''9'']"
    by (simp add: demo_env_def demo_table_def demo_bean_def)
  have xid: "PKToString ?env [StrV ''9''] = Inr ''9,''"
    by (simp add: demo_env_def demo_pk_string_def)
  have neq: "''1,'' \<noteq> ''9,''" by simp
  from cached_bean_key_mismatch[OF demo_prepare_plain demo_cache_path tbl ids pre sid bean hit
      pk xid neq]
  show ?thesis by (simp add: tbl)
qed

lemma composeResult_filled:
  "fst (composeResult env t kts c w) = fst (composeResult env t (filled kts) c w') \<and>
   fst (snd (composeResult env t kts c w)) = fst (snd (composeResult env t (filled kts) c w'))"
proof (induction env t kts c w arbitrary: w' rule: composeResult.induct)
  case (1 env t sliceValue w)
  then show ?case by (simp add: filled_def)
next
  case (2 env t key rest sliceValue w)
  then show ?case by (simp add: filled_def)
next
  case (3 env t key bean rest sliceValue w)
  show ?case
  proof (cases "composeOne env t key bean sliceValue")
    case (Inl e)
    then show ?thesis by (simp add: filled_def)
  next
    case (Inr c)
    with "3.IH"[OF Inr, of w'] show ?thesis by (simp add: filled_def)
  qed
qed

lemma composeResult_events:
  "fst (composeResult env t kts c w) = None \<Longrightarrow>
   snd (snd (composeResult env t kts c w)) = warn_no_hit (empty_slots kts) w"
proof (induction env t kts c w rule: composeResult.induct)
  case (1 env t sliceValue w)
  then show ?case by (simp add: warn_no_hit_def empty_slots_def)
next
  case (2 env t key rest sliceValue w)
  then show ?case
    by (simp add: warn_no_hit_def empty_slots_def emit_def replicate_app_Cons_same)
next
  case (3 env t key bean rest sliceValue w)
  show ?case
  proof (cases "composeOne env t key bean sliceValue")
    case (Inl e)
    with "3.prems" show ?thesis by simp
  next
    case (Inr c)
    with "3.IH"[OF Inr] "3.prems" show ?thesis by (simp add: empty_slots_def)
  qed
qed

lemma composeResult_slice:
  "KindOf (c_type c) = Slice \<Longrightarrow>
   composeResult env t kts c w =
     (None, c\<lparr>c_slice := c_slice c @ map (elem_of t) (beans_of kts)\<rparr>,
      warn_no_hit (empty_slots kts) w)"
proof (induction env t kts c w rule: composeResult.induct)
  case (1 env t sliceValue w)
  then show ?case by (simp add: warn_no_hit_def empty_slots_def beans_of_def List.map_filter_simps)
next
  case (2 env t key rest sliceValue w)
  then show ?case
    by (simp add: warn_no_hit_def empty_slots_def beans_of_def List.map_filter_simps emit_def
        replicate_app_Cons_same)
next
  case (3 env t key bean rest sliceValue w)
  let ?c = "sliceValue\<lparr>c_slice := c_slice sliceValue @ [elem_of t bean]\<rparr>"
  have one: "composeOne env t key bean sliceValue = Inr ?c"
    using "3.prems" by (simp add: composeOne_def elem_of_def Let_def)
  have k: "KindOf (c_type ?c) = Slice" using "3.prems" by simp
  from "3.IH"[OF one k] one show ?case
    by (simp add: empty_slots_def beans_of_def List.map_filter_simps)
qed

text \<open>
  C7. In the composition of the result an id whose slot of \<open>temps\<close> is empty (no cache hit
  and no bean from the backfill) is skipped with the warning "cache no hit": the error and
  the destination are those of composing the filled slots alone, a success has logged one
  warning per empty slot, and into a slice the composition always succeeds with the beans
  of the filled slots in order. So when the id list, the cache look-ups and the backfill
  have succeeded, \<open>cacheFind\<close> and \<open>find\<close> into a slice succeed whatever slots are empty.
\<close>

theorem missing_bean_skipped:
  assumes prep: "prepare env s0 dest condiBean = Inr (s, sqlStr, args)"
      and path: "cache_path env s sqlStr"
      and tbl: "RefTable s = Some table"
      and ids: "resolveIDList env table (TableName s) (idsql env s sqlStr) args w = (Inr ids, w1)"
      and res: "resolveBeans env (TableName s) table (Elem (c_type dest)) 0 ids
                  (resolved0 (length ids)) w1 = (Inr r, w2)"
      and bf: "backfill env (TableName s) table (Elem (c_type dest)) r w2 = (Inr temps, w3)"
  shows "fst (cacheFind env s (Elem (c_type dest)) sqlStr dest args w)
           = fst (composeResult env (Elem (c_type dest)) (filled (zip ids temps)) dest w3)
       \<and> fst (snd (cacheFind env s (Elem (c_type dest)) sqlStr dest args w))
           = fst (snd (composeResult env (Elem (c_type dest)) (filled (zip ids temps)) dest w3))
       \<and> (fst (cacheFind env s (Elem (c_type dest)) sqlStr dest args w) = None \<longrightarrow>
            snd (snd (cacheFind env s (Elem (c_type dest)) sqlStr dest args w))
              = warn_no_hit (empty_slots (zip ids temps)) w3)
       \<and> (KindOf (c_type dest) = Slice \<longrightarrow>
            find env s0 dest condiBean w =
              (None,
               dest\<lparr>c_slice := c_slice dest @
                  map (elem_of (Elem (c_type dest))) (beans_of (zip ids temps))\<rparr>,
               warn_no_hit (empty_slots (zip ids temps)) w3))"
proof -
  let ?t = "Elem (c_type dest)"
  let ?cr = "composeResult env ?t (zip ids temps) dest w3"
  have cf: "cacheFind env s ?t sqlStr dest args w = ?cr"
    unfolding cacheFind_staged[OF path tbl] ids using res bf by simp
  have 1: "fst ?cr = fst (composeResult env ?t (filled (zip ids temps)) dest w3) \<and>
           fst (snd ?cr) = fst (snd (composeResult env ?t (filled (zip ids temps)) dest w3))"
    by (rule composeResult_filled)
  have 3: "fst ?cr = None \<longrightarrow> snd (snd ?cr) = warn_no_hit (empty_slots (zip ids temps)) w3"
    using composeResult_events by blast
  have 4: "KindOf (c_type dest) = Slice \<longrightarrow>
            find env s0 dest condiBean w =
              (None, dest\<lparr>c_slice := c_slice dest @ map (elem_of ?t) (beans_of (zip ids temps))\<rparr>,
               warn_no_hit (empty_slots (zip ids temps)) w3)"
    unfolding find_cache_path[OF prep path] cf
    by (auto simp: composeResult_slice)
  from 1 3 4 show ?thesis unfolding cf by blast
qed

lemma demo_resolveIDList_hit:
  assumes "ids_cache w (''user'', ''SELECT id  FROM user'', []) = Some ids"
  shows "resolveIDList (demo_env demo_table db) demo_table ''user'' ''SELECT id  FROM user'' [] w
           = (Inr ids, w)"
  using assms by (simp add: resolveIDList_def GetCacheSql_def)

theorem missing_bean_skipped_witness:
  "find (demo_env demo_table demo_db) demo_session (demo_slice (StructT ''User'')) []
     (demo_world\<lparr>ids_cache := [(''user'', ''SELECT id  FROM user'', []) \<mapsto>
                                  [[StrV ''1''], [StrV ''7''], [StrV ''2'']]]\<rparr>)
   = (None,
      (demo_slice (StructT ''User''))
        \<lparr>c_slice := [ValOf (demo_bean (StructT ''User'') ''1'' ''a''),
                     ValOf (demo_bean (StructT ''User'') ''2'' ''b'')]\<rparr>,
      warn_no_hit 1
        (PutBean ''user'' ''2,'' (demo_bean (StructT ''User'') ''2'' ''b'')
          (PutBean ''user'' ''1,'' (demo_bean (StructT ''User'') ''1'' ''a'')
            (emit (Backfill ''user'' [[StrV ''1''], [StrV ''7''], [StrV ''2'']])
              (demo_world\<lparr>ids_cache := [(''user'', ''SELECT id  FROM user'', []) \<mapsto>
                                  [[StrV ''1''], [StrV ''7''], [StrV ''2'']]]\<rparr>)))))"
proof -
  let ?ids = "[[StrV ''1''], [StrV ''7''], [StrV ''2'']]"
  let ?w = "demo_world\<lparr>ids_cache := [(''user'', ''SELECT id  FROM user'', []) \<mapsto> ?ids]\<rparr>"
  let ?env = "demo_env demo_table demo_db"
  let ?b1 = "demo_bean (StructT ''User'') ''1'' ''a''"
  let ?b2 = "demo_bean (StructT ''User'') ''2'' ''b''"
  let ?r = "\<lparr>r_ides = ?ids, r_ididxes = [''1,'' \<mapsto> 0, ''7,'' \<mapsto> Suc 0, ''2,'' \<mapsto> Suc (Suc 0)],
            r_temps = [None, None, None]\<rparr>"
  let ?w3 = "PutBean ''user'' ''2,'' ?b2 (PutBean ''user'' ''1,'' ?b1
               (emit (Backfill ''user'' ?ids) ?w))"
  have tbl: "RefTable demo_find_session = Some demo_table"
    by (simp add: demo_find_session_def)
  have tn: "TableName demo_find_session = ''user''"
    by (simp add: demo_find_session_def)
  have t: "Elem (c_type (demo_slice (StructT ''User''))) = StructT ''User''"
    by (simp add: demo_slice_def)
  have ids: "resolveIDList ?env demo_table (TableName demo_find_session)
               (idsql ?env demo_find_session ''SELECT * FROM user'') [] ?w = (Inr ?ids, ?w)"
    unfolding tn demo_idsql by (rule demo_resolveIDList_hit) simp
  have res: "resolveBeans ?env (TableName demo_find_session) demo_table
               (Elem (c_type (demo_slice (StructT ''User'')))) 0 ?ids (resolved0 (length ?ids)) ?w
             = (Inr ?r, ?w)"
    unfolding tn t
    by (simp add: resolveOne_def resolved0_def demo_env_def demo_pk_string_def GetBean_def
        demo_world_def isHit_def)
  have bf: "backfill ?env (TableName demo_find_session) demo_table
              (Elem (c_type (demo_slice (StructT ''User'')))) ?r ?w
            = (Inr [Some ?b1, None, Some ?b2], ?w3)"
    unfolding tn t
    by (simp add: backfill_def placeOne_def demo_env_def demo_db_def demo_table_def
        demo_fields_def demo_bean_def demo_pk_string_def Let_def)
  have k: "KindOf (c_type (demo_slice (StructT ''User''))) = Slice"
    by (simp add: demo_slice_def)
  from missing_bean_skipped[OF demo_prepare_plain demo_cache_path tbl ids res bf] k
  have "find ?env demo_session (demo_slice (StructT ''User'')) [] ?w =
          (None,
           (demo_slice (StructT ''User''))\<lparr>c_slice := c_slice (demo_slice (StructT ''User'')) @
              map (elem_of (Elem (c_type (demo_slice (StructT ''User'')))))
                (beans_of (zip ?ids [Some ?b1, None, Some ?b2]))\<rparr>,
           warn_no_hit (empty_slots (zip ?ids [Some ?b1, None, Some ?b2])) ?w3)"
    by blast
  moreover have "beans_of (zip ?ids [Some ?b1, None, Some ?b2]) = [?b1, ?b2]"
    by (simp add: beans_of_def List.map_filter_simps)
  moreover have "empty_slots (zip ?ids [Some ?b1, None, Some ?b2]) = 1"
    by (simp add: empty_slots_def)
  ultimately show ?thesis
    by (simp add: t elem_of_def demo_slice_def)
qed

lemma isHit_None: "isHit t None = False"
  by (simp add: isHit_def)

lemma hit_of_isHit: "isHit t x \<longleftrightarrow> hit_of t x \<noteq> None"
  by (cases x) (simp_all add: hit_of_def isHit_None)

lemma hit_of_eq: "isHit t x \<Longrightarrow> hit_of t x = x"
  by (simp add: hit_of_def)

lemma same_hits_refl: "same_hits t tn w w"
  unfolding same_hits_def by simp

lemma same_hits_without: "same_hits t tn w (without_mismatched t tn w)"
  unfolding same_hits_def without_mismatched_def GetBean_def hit_of_def
  by (simp add: isHit_None)

lemma same_hits_events: "same_hits t tn w w' \<Longrightarrow> events w = events w'"
  unfolding same_hits_def by blast

lemma same_hits_ids: "same_hits t tn w w' \<Longrightarrow> ids_cache w = ids_cache w'"
  unfolding same_hits_def by blast

lemma same_hits_bean:
  "same_hits t tn w w' \<Longrightarrow> hit_of t (GetBean w tn sid) = hit_of t (GetBean w' tn sid)"
  unfolding same_hits_def by blast

lemma same_hitsI:
  "ids_cache w = ids_cache w' \<Longrightarrow> events w = events w' \<Longrightarrow>
   (\<And>sid. hit_of t (GetBean w tn sid) = hit_of t (GetBean w' tn sid)) \<Longrightarrow> same_hits t tn w w'"
  unfolding same_hits_def by blast

lemma same_hits_emit:
  assumes "same_hits t tn w w'"
  shows "same_hits t tn (emit ev w) (emit ev w')"
proof (rule same_hitsI)
  show "ids_cache (emit ev w) = ids_cache (emit ev w')"
    using same_hits_ids[OF assms] by (simp add: emit_def)
  show "events (emit ev w) = events (emit ev w')"
    using same_hits_events[OF assms] by (simp add: emit_def)
  show "hit_of t (GetBean (emit ev w) tn sid) = hit_of t (GetBean (emit ev w') tn sid)" for sid
    using same_hits_bean[OF assms, of sid] by (simp add: emit_def GetBean_def)
qed

lemma same_hits_PutCacheSql:
  assumes "same_hits t tn w w'"
  shows "same_hits t tn (PutCacheSql ids tn' sql args w) (PutCacheSql ids tn' sql args w')"
proof (rule same_hitsI)
  show "ids_cache (PutCacheSql ids tn' sql args w) = ids_cache (PutCacheSql ids tn' sql args w')"
    using same_hits_ids[OF assms] by (simp add: PutCacheSql_def)
  show "events (PutCacheSql ids tn' sql args w) = events (PutCacheSql ids tn' sql args w')"
    using same_hits_events[OF assms] by (simp add: PutCacheSql_def)
  show "hit_of t (GetBean (PutCacheSql ids tn' sql args w) tn sid)
        = hit_of t (GetBean (PutCacheSql ids tn' sql args w') tn sid)" for sid
    using same_hits_bean[OF assms, of sid] by (simp add: PutCacheSql_def GetBean_def)
qed

lemma same_hits_PutBean:
  assumes "same_hits t tn w w'"
  shows "same_hits t tn (PutBean tn sid b w) (PutBean tn sid b w')"
proof (rule same_hitsI)
  show "ids_cache (PutBean tn sid b w) = ids_cache (PutBean tn sid b w')"
    using same_hits_ids[OF assms] by (simp add: PutBean_def)
  show "events (PutBean tn sid b w) = events (PutBean tn sid b w')"
    using same_hits_events[OF assms] by (simp add: PutBean_def)
  show "hit_of t (GetBean (PutBean tn sid b w) tn sid')
        = hit_of t (GetBean (PutBean tn sid b w') tn sid')" for sid'
    using same_hits_bean[OF assms, of sid'] by (simp add: PutBean_def GetBean_def)
qed

lemma resolveIDList_rel:
  assumes rel: "same_hits t tn w w'"
  shows "fst (resolveIDList env tb tn sql args w) = fst (resolveIDList env tb tn sql args w') \<and>
         same_hits t tn (snd (resolveIDList env tb tn sql args w))
                        (snd (resolveIDList env tb tn sql args w'))"
proof -
  have g: "GetCacheSql w tn sql args = GetCacheSql w' tn sql args"
    using same_hits_ids[OF rel] by (simp add: GetCacheSql_def)
  note e = same_hits_emit[OF rel, of "QueryRows sql args"]
  note p = same_hits_PutCacheSql[OF e]
  show ?thesis
  proof (cases "GetCacheSql w' tn sql args")
    case (Some ids)
    with g rel show ?thesis by (simp add: resolveIDList_def)
  next
    case None
    show ?thesis
    proof (cases "queryRows env sql args")
      case (Inl x)
      with None g e show ?thesis by (simp add: resolveIDList_def Let_def)
    next
      case (Inr rows)
      show ?thesis
      proof (cases "collectIDs env tb (rows_data rows) 0 []")
        case (Inl x)
        with Inr None g e show ?thesis by (simp add: resolveIDList_def Let_def)
      next
        case ids: (Inr ids)
        show ?thesis
        proof (cases "rows_err rows")
          case (Some x)
          with ids Inr None g e show ?thesis by (simp add: resolveIDList_def Let_def)
        next
          case n: None
          with ids Inr None g p[of ids tn sql args] show ?thesis
            by (simp add: resolveIDList_def Let_def)
        qed
      qed
    qed
  qed
qed

lemma resolveOne_rel:
  assumes rel: "same_hits t tn w w'"
  shows "fst (resolveOne env tn tb t idx idv r w) = fst (resolveOne env tn tb t idx idv r w') \<and>
         same_hits t tn (snd (resolveOne env tn tb t idx idv r w))
                        (snd (resolveOne env tn tb t idx idv r w'))"
proof (cases "PKToString env idv")
  case (Inl e)
  then show ?thesis using rel by (simp add: resolveOne_def)
next
  case (Inr sid)
  note hb = same_hits_bean[OF rel, of sid]
  show ?thesis
  proof (cases "isHit t (GetBean w tn sid)")
    case True
    then have h1: "hit_of t (GetBean w tn sid) = GetBean w tn sid" by (rule hit_of_eq)
    with hb True have "hit_of t (GetBean w' tn sid) \<noteq> None"
      using hit_of_isHit[of t "GetBean w tn sid"] by simp
    then have h': "isHit t (GetBean w' tn sid)" by (simp add: hit_of_isHit)
    then have "hit_of t (GetBean w' tn sid) = GetBean w' tn sid" by (rule hit_of_eq)
    with hb h1 have eq: "GetBean w' tn sid = GetBean w tn sid" by simp
    from True obtain b where b: "GetBean w tn sid = Some b"
      by (cases "GetBean w tn sid") (simp_all add: isHit_None)
    have hit: "isHit t (Some b)" using True b by simp
    show ?thesis
    proof (cases "IDOfV env tb b")
      case (Inl e)
      with Inr b eq hit rel show ?thesis by (simp add: resolveOne_def)
    next
      case pk: (Inr pk)
      show ?thesis
      proof (cases "PKToString env pk")
        case (Inl e)
        with pk Inr b eq hit rel show ?thesis by (simp add: resolveOne_def)
      next
        case xid: (Inr xid)
        show ?thesis
        proof (cases "sid = xid")
          case True
          with xid pk Inr b eq hit rel show ?thesis by (simp add: resolveOne_def)
        next
          case False
          with xid pk Inr b eq hit same_hits_emit[OF rel, of "Errorf ''[cache] error cache''"]
          show ?thesis by (simp add: resolveOne_def)
        qed
      qed
    qed
  next
    case False
    then have "hit_of t (GetBean w tn sid) = None" by (simp add: hit_of_def)
    with hb have "\<not> isHit t (GetBean w' tn sid)" by (simp add: hit_of_isHit)
    with False Inr rel show ?thesis
      by (simp add: resolveOne_def)
  qed
qed

lemma resolveBeans_rel:
  "same_hits t tn w w' \<Longrightarrow>
   fst (resolveBeans env tn tb t idx ids r w) = fst (resolveBeans env tn tb t idx ids r w') \<and>
   same_hits t tn (snd (resolveBeans env tn tb t idx ids r w))
                  (snd (resolveBeans env tn tb t idx ids r w'))"
proof (induction ids arbitrary: idx r w w')
  case Nil
  then show ?case by simp
next
  case (Cons x xs)
  obtain a w1 where s1: "resolveOne env tn tb t idx x r w = (a, w1)" by fastforce
  obtain a' w1' where s2: "resolveOne env tn tb t idx x r w' = (a', w1')" by fastforce
  from resolveOne_rel[OF Cons.prems, of env tb idx x r] s1 s2
  have aa: "a' = a" and rel: "same_hits t tn w1 w1'" by simp_all
  show ?case
  proof (cases a)
    case (Inl e)
    with s1 s2 aa rel show ?thesis by simp
  next
    case (Inr r1)
    with s1 s2 aa Cons.IH[OF rel, of "idx + 1" r1] show ?thesis by simp
  qed
qed

lemma placeOne_rel:
  assumes rel: "same_hits t tn w w'"
  shows "fst (placeOne env tn tb ix rv temps w) = fst (placeOne env tn tb ix rv temps w') \<and>
         same_hits t tn (snd (placeOne env tn tb ix rv temps w))
                        (snd (placeOne env tn tb ix rv temps w'))"
proof (cases "IDOfV env tb rv")
  case (Inl e)
  with rel show ?thesis by (simp add: placeOne_def)
next
  case (Inr idv)
  show ?thesis
  proof (cases "PKToString env idv")
    case (Inl e)
    with Inr rel show ?thesis by (simp add: placeOne_def)
  next
    case sid: (Inr sid)
    with Inr same_hits_PutBean[OF rel, of sid rv] show ?thesis by (simp add: placeOne_def)
  qed
qed

lemma placeBeans_rel:
  "same_hits t tn w w' \<Longrightarrow>
   fst (placeBeans env tn tb ix vs temps w) = fst (placeBeans env tn tb ix vs temps w') \<and>
   same_hits t tn (snd (placeBeans env tn tb ix vs temps w))
                  (snd (placeBeans env tn tb ix vs temps w'))"
proof (induction vs arbitrary: temps w w')
  case Nil
  then show ?case by simp
next
  case (Cons x xs)
  obtain a w1 where s1: "placeOne env tn tb ix x temps w = (a, w1)" by fastforce
  obtain a' w1' where s2: "placeOne env tn tb ix x temps w' = (a', w1')" by fastforce
  from placeOne_rel[OF Cons.prems, of env tb ix x temps] s1 s2
  have aa: "a' = a" and rel: "same_hits t tn w1 w1'" by simp_all
  show ?case
  proof (cases a)
    case (Inl e)
    with s1 s2 aa rel show ?thesis by simp
  next
    case (Inr temps1)
    with s1 s2 aa Cons.IH[OF rel, of temps1] show ?thesis by simp
  qed
qed

lemma backfill_rel:
  assumes rel: "same_hits t tn w w'"
  shows "fst (backfill env tn tb t r w) = fst (backfill env tn tb t r w') \<and>
         same_hits t tn (snd (backfill env tn tb t r w)) (snd (backfill env tn tb t r w'))"
proof (cases "length (r_ides r) > 0")
  case False
  with rel show ?thesis by (simp add: backfill_def)
next
  case True
  note e = same_hits_emit[OF rel, of "Backfill tn (r_ides r)"]
  show ?thesis
  proof (cases "nestedFind env tn t (r_ides r)")
    case (Inl x)
    with True e show ?thesis by (simp add: backfill_def Let_def)
  next
    case (Inr vs)
    with True placeBeans_rel[OF e] show ?thesis by (simp add: backfill_def Let_def)
  qed
qed

lemma composeResult_rel:
  "events w = events w' \<Longrightarrow>
   fst (composeResult env t kts c w) = fst (composeResult env t kts c w') \<and>
   fst (snd (composeResult env t kts c w)) = fst (snd (composeResult env t kts c w')) \<and>
   events (snd (snd (composeResult env t kts c w))) = events (snd (snd (composeResult env t kts c w')))"
proof (induction env t kts c w arbitrary: w' rule: composeResult.induct)
  case (1 env t sliceValue w)
  then show ?case by simp
next
  case (2 env t key rest sliceValue w)
  from "2.prems" have "events (emit (Warnf ''[cache] cache no hit'') w)
      = events (emit (Warnf ''[cache] cache no hit'') w')"
    by (simp add: emit_def)
  from "2.IH"[OF this] show ?case by simp
next
  case (3 env t key bean rest sliceValue w)
  show ?case
  proof (cases "composeOne env t key bean sliceValue")
    case (Inl e)
    with "3.prems" show ?thesis by simp
  next
    case (Inr c)
    with "3.IH"[OF Inr "3.prems"] show ?thesis by simp
  qed
qed

lemma cacheFind_unfold:
  "cacheFind env s t sqlStr dest args w =
     (if \<not> canCache env s \<or> IndexNoCase env sqlStr ''having'' \<noteq> - 1 \<or>
         IndexNoCase env sqlStr ''group by'' \<noteq> - 1
      then (Some ErrCacheFailed, dest, w)
      else if \<not> GetCacher env (TableName s) then (None, dest, w)
      else if idsql env s sqlStr = '''' then (Some ErrCacheFailed, dest, w)
      else
        (case RefTable s of
           None \<Rightarrow> (Some (Panic NilDereference), dest, w)
         | Some table \<Rightarrow>
             (case resolveIDList env table (TableName s) (idsql env s sqlStr) args w of
                (Inl e, w1) \<Rightarrow> (Some e, dest, w1)
              | (Inr ids, w1) \<Rightarrow>
                  (case resolveBeans env (TableName s) table t 0 ids (resolved0 (length ids)) w1 of
                     (Inl e, w2) \<Rightarrow> (Some e, dest, w2)
                   | (Inr r, w2) \<Rightarrow>
                       (case backfill env (TableName s) table t r w2 of
                          (Inl e, w3) \<Rightarrow> (Some e, dest, w3)
                        | (Inr temps, w3) \<Rightarrow> composeResult env t (zip ids temps) dest w3)))))"
  unfolding cacheFind_def idsql_def resolved0_def Let_def by simp

lemma cacheFind_rel:
  assumes rel: "same_hits t (TableName s) w w'"
  shows "fst (cacheFind env s t sqlStr dest args w) = fst (cacheFind env s t sqlStr dest args w') \<and>
         fst (snd (cacheFind env s t sqlStr dest args w))
           = fst (snd (cacheFind env s t sqlStr dest args w')) \<and>
         events (snd (snd (cacheFind env s t sqlStr dest args w)))
           = events (snd (snd (cacheFind env s t sqlStr dest args w')))"
proof -
  note ev = same_hits_events[OF rel]
  let ?tn = "TableName s"
  let ?q = "idsql env s sqlStr"
  consider (a) "\<not> canCache env s \<or> IndexNoCase env sqlStr ''having'' \<noteq> - 1 \<or>
                IndexNoCase env sqlStr ''group by'' \<noteq> - 1"
    | (b) "\<not> (\<not> canCache env s \<or> IndexNoCase env sqlStr ''having'' \<noteq> - 1 \<or>
                IndexNoCase env sqlStr ''group by'' \<noteq> - 1)" "\<not> GetCacher env ?tn"
    | (c) "\<not> (\<not> canCache env s \<or> IndexNoCase env sqlStr ''having'' \<noteq> - 1 \<or>
                IndexNoCase env sqlStr ''group by'' \<noteq> - 1)" "GetCacher env ?tn" "?q = ''''"
    | (d) "\<not> (\<not> canCache env s \<or> IndexNoCase env sqlStr ''having'' \<noteq> - 1 \<or>
                IndexNoCase env sqlStr ''group by'' \<noteq> - 1)" "GetCacher env ?tn" "?q \<noteq> ''''"
          "RefTable s = None"
    | (e) table where "\<not> (\<not> canCache env s \<or> IndexNoCase env sqlStr ''having'' \<noteq> - 1 \<or>
                IndexNoCase env sqlStr ''group by'' \<noteq> - 1)" "GetCacher env ?tn" "?q \<noteq> ''''"
          "RefTable s = Some table"
    by (cases "RefTable s") blast+
  then show ?thesis
  proof cases
    case a
    have "cacheFind env s t sqlStr dest args v = (Some ErrCacheFailed, dest, v)" for v
      unfolding cacheFind_unfold using a by simp
    with ev show ?thesis by simp
  next
    case b
    have "cacheFind env s t sqlStr dest args v = (None, dest, v)" for v
      unfolding cacheFind_unfold using b by simp
    with ev show ?thesis by simp
  next
    case c
    have "cacheFind env s t sqlStr dest args v = (Some ErrCacheFailed, dest, v)" for v
      unfolding cacheFind_unfold using c by simp
    with ev show ?thesis by simp
  next
    case d
    have "cacheFind env s t sqlStr dest args v = (Some (Panic NilDereference), dest, v)" for v
      unfolding cacheFind_unfold using d by simp
    with ev show ?thesis by simp
  next
    case e
    have st: "cacheFind env s t sqlStr dest args v =
         (case resolveIDList env table ?tn ?q args v of
            (Inl e, w1) \<Rightarrow> (Some e, dest, w1)
          | (Inr ids, w1) \<Rightarrow>
              (case resolveBeans env ?tn table t 0 ids (resolved0 (length ids)) w1 of
                 (Inl e, w2) \<Rightarrow> (Some e, dest, w2)
               | (Inr r, w2) \<Rightarrow>
                   (case backfill env ?tn table t r w2 of
                      (Inl e, w3) \<Rightarrow> (Some e, dest, w3)
                    | (Inr temps, w3) \<Rightarrow> composeResult env t (zip ids temps) dest w3)))" for v
      unfolding cacheFind_unfold using e by simp
    obtain a1 w1 where r1: "resolveIDList env table ?tn ?q args w = (a1, w1)" by fastforce
    obtain a1' w1' where r1': "resolveIDList env table ?tn ?q args w' = (a1', w1')" by fastforce
    from resolveIDList_rel[OF rel, of env table ?q args] r1 r1'
    have e1: "a1' = a1" and rel1: "same_hits t ?tn w1 w1'" by simp_all
    show ?thesis
    proof (cases a1)
      case (Inl x)
      with r1 r1' e1 same_hits_events[OF rel1] show ?thesis unfolding st by simp
    next
      case (Inr ids)
      obtain a2 w2 where r2: "resolveBeans env ?tn table t 0 ids (resolved0 (length ids)) w1 = (a2, w2)"
        by fastforce
      obtain a2' w2' where r2': "resolveBeans env ?tn table t 0 ids (resolved0 (length ids)) w1' = (a2', w2')"
        by fastforce
      from resolveBeans_rel[OF rel1, of env table 0 ids "resolved0 (length ids)"] r2 r2'
      have e2: "a2' = a2" and rel2: "same_hits t ?tn w2 w2'" by simp_all
      show ?thesis
      proof (cases a2)
        case (Inl x)
        with Inr r1 r1' e1 r2 r2' e2 same_hits_events[OF rel2] show ?thesis unfolding st by simp
      next
        case r: (Inr r)
        obtain a3 w3 where r3: "backfill env ?tn table t r w2 = (a3, w3)" by fastforce
        obtain a3' w3' where r3': "backfill env ?tn table t r w2' = (a3', w3')" by fastforce
        from backfill_rel[OF rel2, of env table r] r3 r3'
        have e3: "a3' = a3" and rel3: "same_hits t ?tn w3 w3'" by simp_all
        show ?thesis
        proof (cases a3)
          case (Inl x)
          with Inr r r1 r1' e1 r2 r2' e2 r3 r3' e3 same_hits_events[OF rel3] show ?thesis
            unfolding st by simp
        next
          case tm: (Inr temps)
          from composeResult_rel[OF same_hits_events[OF rel3], of env t "zip ids temps" dest]
          show ?thesis
            unfolding st using Inr r tm r1 r1' e1 r2 r2' e2 r3 r3' e3 by simp
        qed
      qed
    qed
  qed
qed

text \<open>
  C3, as amended. A cached bean whose type \<open>isHit\<close> rejects (neither the element type nor,
  for a pointer element type, the type pointed to) is treated as a cache miss: the error,
  the destination, and the queries and log lines of \<open>cacheFind\<close> are those of the same call
  on a cache without the rejected beans. The id goes to the backfill with the other
  misses; the mismatch is no failure of its own and does not abandon the cache path.
\<close>

theorem type_mismatch_is_a_miss:
  "fst (cacheFind env s t sqlStr dest args w)
     = fst (cacheFind env s t sqlStr dest args (without_mismatched t (TableName s) w))
   \<and> fst (snd (cacheFind env s t sqlStr dest args w))
     = fst (snd (cacheFind env s t sqlStr dest args (without_mismatched t (TableName s) w)))
   \<and> events (snd (snd (cacheFind env s t sqlStr dest args w)))
     = events (snd (snd (cacheFind env s t sqlStr dest args (without_mismatched t (TableName s) w))))"
  by (rule cacheFind_rel[OF same_hits_without])

lemma find_into_slice:
  assumes prep: "prepare env s0 dest condiBean = Inr (s, sqlStr, args)"
      and path: "cache_path env s sqlStr"
      and tbl: "RefTable s = Some table"
      and ids: "resolveIDList env table (TableName s) (idsql env s sqlStr) args w = (Inr ids, w1)"
      and res: "resolveBeans env (TableName s) table (Elem (c_type dest)) 0 ids
                  (resolved0 (length ids)) w1 = (Inr r, w2)"
      and bf: "backfill env (TableName s) table (Elem (c_type dest)) r w2 = (Inr temps, w3)"
      and sl: "KindOf (c_type dest) = Slice"
  shows "cacheFind env s (Elem (c_type dest)) sqlStr dest args w =
              (None,
               dest\<lparr>c_slice := c_slice dest @
                  map (elem_of (Elem (c_type dest))) (beans_of (zip ids temps))\<rparr>,
               warn_no_hit (empty_slots (zip ids temps)) w3)"
    and "find env s0 dest condiBean w =
              (None,
               dest\<lparr>c_slice := c_slice dest @
                  map (elem_of (Elem (c_type dest))) (beans_of (zip ids temps))\<rparr>,
               warn_no_hit (empty_slots (zip ids temps)) w3)"
proof -
  show cf: "cacheFind env s (Elem (c_type dest)) sqlStr dest args w =
              (None,
               dest\<lparr>c_slice := c_slice dest @
                  map (elem_of (Elem (c_type dest))) (beans_of (zip ids temps))\<rparr>,
               warn_no_hit (empty_slots (zip ids temps)) w3)"
    unfolding cacheFind_staged[OF path tbl] ids using res bf
    by (simp add: composeResult_slice[OF sl])
  show "find env s0 dest condiBean w =
              (None,
               dest\<lparr>c_slice := c_slice dest @
                  map (elem_of (Elem (c_type dest))) (beans_of (zip ids temps))\<rparr>,
               warn_no_hit (empty_slots (zip ids temps)) w3)"
    unfolding find_cache_path[OF prep path] cf by simp
qed

lemma demo_tbl: "RefTable demo_find_session = Some demo_table"
  by (simp add: demo_find_session_def)

lemma demo_tn: "TableName demo_find_session = ''user''"
  by (simp add: demo_find_session_def)

lemma demo_t: "Elem (c_type (demo_slice ty)) = ty"
  by (simp add: demo_slice_def)

lemma demo_kind: "KindOf (c_type (demo_slice ty)) = Slice"
  by (simp add: demo_slice_def)

lemma demo_mismatch_run:
  defines "wm \<equiv> demo_cached ''1,'' (demo_bean (StructT ''Other'') ''1'' ''stale'')"
  defines "env \<equiv> demo_env demo_table demo_db"
  defines "dest \<equiv> demo_slice (StructT ''User'')"
  defines "w3 \<equiv> PutBean ''user'' ''2,'' (demo_bean (StructT ''User'') ''2'' ''b'')
          (PutBean ''user'' ''1,'' (demo_bean (StructT ''User'') ''1'' ''a'')
            (emit (Backfill ''user'' [[StrV ''1''], [StrV ''2'']])
              (PutCacheSql [[StrV ''1''], [StrV ''2'']] ''user'' ''SELECT id  FROM user'' []
                (emit (QueryRows ''SELECT id  FROM user'' []) wm))))"
  shows "cacheFind env demo_find_session (StructT ''User'') ''SELECT * FROM user'' dest [] wm
         = (None, dest\<lparr>c_slice := [ValOf (demo_bean (StructT ''User'') ''1'' ''a''),
                                     ValOf (demo_bean (StructT ''User'') ''2'' ''b'')]\<rparr>, w3)"
    and "find env demo_session dest [] wm
         = (None, dest\<lparr>c_slice := [ValOf (demo_bean (StructT ''User'') ''1'' ''a''),
                                     ValOf (demo_bean (StructT ''User'') ''2'' ''b'')]\<rparr>, w3)"
proof -
  let ?ids = "[[StrV ''1''], [StrV ''2'']]"
  let ?b1 = "demo_bean (StructT ''User'') ''1'' ''a''"
  let ?b2 = "demo_bean (StructT ''User'') ''2'' ''b''"
  let ?w1 = "PutCacheSql ?ids ''user'' ''SELECT id  FROM user'' []
                (emit (QueryRows ''SELECT id  FROM user'' []) wm)"
  let ?r = "\<lparr>r_ides = ?ids, r_ididxes = [''1,'' \<mapsto> 0, ''2,'' \<mapsto> Suc 0],
            r_temps = [None, None]\<rparr>"
  have ids: "resolveIDList env demo_table (TableName demo_find_session)
               (idsql env demo_find_session ''SELECT * FROM user'') [] wm = (Inr ?ids, ?w1)"
    unfolding demo_tn env_def demo_idsql
    by (rule demo_resolveIDList) (simp add: wm_def demo_cached_def demo_world_def)
  have res: "resolveBeans env (TableName demo_find_session) demo_table
               (Elem (c_type dest)) 0 ?ids (resolved0 (length ?ids)) ?w1 = (Inr ?r, ?w1)"
    unfolding demo_tn dest_def demo_t env_def
    by (simp add: resolveOne_def resolved0_def demo_env_def demo_pk_string_def GetBean_def
        PutCacheSql_def emit_def wm_def demo_cached_def demo_world_def demo_bean_def isHit_def)
  have bf: "backfill env (TableName demo_find_session) demo_table (Elem (c_type dest)) ?r ?w1
            = (Inr [Some ?b1, Some ?b2], w3)"
    unfolding demo_tn dest_def demo_t env_def w3_def
    by (simp add: backfill_def placeOne_def demo_env_def demo_db_def demo_table_def
        demo_fields_def demo_bean_def demo_pk_string_def Let_def)
  have bs: "beans_of (zip ?ids [Some ?b1, Some ?b2]) = [?b1, ?b2]"
    by (simp add: beans_of_def List.map_filter_simps)
  have es: "empty_slots (zip ?ids [Some ?b1, Some ?b2]) = 0"
    by (simp add: empty_slots_def)
  have k: "KindOf (c_type dest) = Slice" by (simp add: dest_def demo_kind)
  have p: "prepare env demo_session dest [] = Inr (demo_find_session, ''SELECT * FROM user'', [])"
    unfolding env_def dest_def by (rule demo_prepare_plain)
  have cp: "cache_path env demo_find_session ''SELECT * FROM user''"
    unfolding env_def by (rule demo_cache_path)
  note fs = find_into_slice[OF p cp demo_tbl ids res bf k]
  show "cacheFind env demo_find_session (StructT ''User'') ''SELECT * FROM user'' dest [] wm
         = (None, dest\<lparr>c_slice := [ValOf ?b1, ValOf ?b2]\<rparr>, w3)"
    using fs(1) unfolding bs es
    by (simp add: dest_def demo_t elem_of_def warn_no_hit_def demo_slice_def)
  show "find env demo_session dest [] wm
         = (None, dest\<lparr>c_slice := [ValOf ?b1, ValOf ?b2]\<rparr>, w3)"
    using fs(2) unfolding bs es
    by (simp add: dest_def demo_t elem_of_def warn_no_hit_def demo_slice_def)
qed

theorem type_mismatch_counterexample:
  "GetBean (demo_cached ''1,'' (demo_bean (StructT ''Other'') ''1'' ''stale'')) ''user'' ''1,''
     = Some (demo_bean (StructT ''Other'') ''1'' ''stale'')
   \<and> isHit (StructT ''User'') (Some (demo_bean (StructT ''Other'') ''1'' ''stale'')) = False
   \<and> fst (cacheFind (demo_env demo_table demo_db) demo_find_session (StructT ''User'')
            ''SELECT * FROM user'' (demo_slice (StructT ''User'')) []
            (demo_cached ''1,'' (demo_bean (StructT ''Other'') ''1'' ''stale''))) = None
   \<and> fst (find (demo_env demo_table demo_db) demo_session (demo_slice (StructT ''User'')) []
            (demo_cached ''1,'' (demo_bean (StructT ''Other'') ''1'' ''stale''))) = None
   \<and> c_slice (fst (snd (find (demo_env demo_table demo_db) demo_session
            (demo_slice (StructT ''User'')) []
            (demo_cached ''1,'' (demo_bean (StructT ''Other'') ''1'' ''stale'')))))
       = [ValOf (demo_bean (StructT ''User'') ''1'' ''a''),
          ValOf (demo_bean (StructT ''User'') ''2'' ''b'')]
   \<and> events (snd (snd (find (demo_env demo_table demo_db) demo_session
            (demo_slice (StructT ''User'')) []
            (demo_cached ''1,'' (demo_bean (StructT ''Other'') ''1'' ''stale'')))))
       = [QueryRows ''SELECT id  FROM user'' [], Backfill ''user'' [[StrV ''1''], [StrV ''2'']]]"
  unfolding demo_mismatch_run
  by (simp add: GetBean_def demo_cached_def demo_world_def isHit_def demo_bean_def
      PutBean_def PutCacheSql_def emit_def)

theorem type_mismatch_is_a_miss_witness:
  "fst (cacheFind (demo_env demo_table demo_db) demo_find_session (StructT ''User'')
          ''SELECT * FROM user'' (demo_slice (StructT ''User'')) []
          (without_mismatched (StructT ''User'') ''user''
             (demo_cached ''1,'' (demo_bean (StructT ''Other'') ''1'' ''stale'')))) = None"
  using type_mismatch_is_a_miss[of "demo_env demo_table demo_db" demo_find_session
      "StructT ''User''" "''SELECT * FROM user''" "demo_slice (StructT ''User'')" "[]"
      "demo_cached ''1,'' (demo_bean (StructT ''Other'') ''1'' ''stale'')"]
  unfolding demo_tn demo_mismatch_run(1) by simp

section \<open>The cap on the id list\<close>

lemma collectIDs_ok:
  "all_scan env tb rows \<Longrightarrow> i + length rows \<le> 500 \<Longrightarrow>
   collectIDs env tb rows i acc = Inr (acc @ scanned_keys env tb rows)"
proof (induction rows arbitrary: i acc)
  case Nil
  then show ?case by (simp add: scanned_keys_def)
next
  case (Cons row rows)
  from Cons.prems(1) obtain pk where pk: "scanPK env tb row = Inr pk"
    by (cases "scanPK env tb row") (simp_all add: all_scan_def)
  from Cons.prems have a: "all_scan env tb rows" and l: "(i + 1) + length rows \<le> 500"
    by (simp_all add: all_scan_def)
  from Cons.prems(2) have i: "\<not> i + 1 > 500" by simp
  show ?case
    using Cons.IH[OF a l, of "acc @ [pk]"] pk i by (simp add: scanned_keys_def)
qed

lemma collectIDs_append:
  "all_scan env tb pre \<Longrightarrow> i + length pre \<le> 500 \<Longrightarrow>
   collectIDs env tb (pre @ rest) i acc =
     collectIDs env tb rest (i + length pre) (acc @ scanned_keys env tb pre)"
proof (induction pre arbitrary: i acc)
  case Nil
  then show ?case by (simp add: scanned_keys_def)
next
  case (Cons row pre)
  from Cons.prems(1) obtain pk where pk: "scanPK env tb row = Inr pk"
    by (cases "scanPK env tb row") (simp_all add: all_scan_def)
  from Cons.prems have a: "all_scan env tb pre" and l: "(i + 1) + length pre \<le> 500"
    by (simp_all add: all_scan_def)
  from Cons.prems(2) have i: "\<not> i + 1 > 500" by simp
  show ?case
    using Cons.IH[OF a l, of "acc @ [pk]"] pk i by (simp add: scanned_keys_def)
qed

lemma collectIDs_cap:
  assumes "length rows > 500" and "all_scan env tb (take 500 rows)"
  shows "collectIDs env tb rows 0 [] = Inl ErrCacheFailed"
proof -
  from assms(1) obtain row rest where d: "drop 500 rows = row # rest"
    by (cases "drop 500 rows") simp_all
  have l: "0 + length (take 500 rows) \<le> 500" by simp
  have len: "length (take 500 rows) = 500" using assms(1) by simp
  have "collectIDs env tb (take 500 rows @ drop 500 rows) 0 [] =
        collectIDs env tb (drop 500 rows) (0 + length (take 500 rows))
          ([] @ scanned_keys env tb (take 500 rows))"
    by (rule collectIDs_append[OF assms(2) l])
  then have "collectIDs env tb (take 500 rows @ drop 500 rows) 0 [] = Inl ErrCacheFailed"
    unfolding len d by simp
  then show ?thesis by simp
qed

lemma resolveOne_ids_cache:
  "ids_cache (snd (resolveOne env tn tb t idx idv r w)) = ids_cache w"
  by (simp add: resolveOne_def emit_def split: sum.splits option.splits bool.splits)

lemma resolveBeans_ids_cache:
  "ids_cache (snd (resolveBeans env tn tb t idx ids r w)) = ids_cache w"
proof (induction ids arbitrary: idx r w)
  case Nil
  then show ?case by simp
next
  case (Cons x xs)
  obtain a w1 where s: "resolveOne env tn tb t idx x r w = (a, w1)" by fastforce
  from resolveOne_ids_cache[of env tn tb t idx x r w] s have w1: "ids_cache w1 = ids_cache w"
    by simp
  show ?case
  proof (cases a)
    case (Inl e)
    with s w1 show ?thesis by simp
  next
    case (Inr r1)
    with s w1 Cons.IH[of "idx + 1" r1 w1] show ?thesis by simp
  qed
qed

lemma placeBeans_ids_cache:
  "ids_cache (snd (placeBeans env tn tb ix vs temps w)) = ids_cache w"
proof (induction vs arbitrary: temps w)
  case Nil
  then show ?case by simp
next
  case (Cons x xs)
  obtain a w1 where s: "placeOne env tn tb ix x temps w = (a, w1)" by fastforce
  then have w1: "ids_cache w1 = ids_cache w"
    by (auto simp: placeOne_def PutBean_def split: sum.splits)
  show ?case
  proof (cases a)
    case (Inl e)
    with s w1 show ?thesis by simp
  next
    case (Inr t1)
    with s w1 Cons.IH[of t1 w1] show ?thesis by simp
  qed
qed

lemma backfill_ids_cache:
  "ids_cache (snd (backfill env tn tb t r w)) = ids_cache w"
  by (simp add: backfill_def Let_def placeBeans_ids_cache emit_def split: sum.splits)

lemma composeResult_ids_cache:
  "ids_cache (snd (snd (composeResult env t kts c w))) = ids_cache w"
proof (induction env t kts c w rule: composeResult.induct)
  case (1 env t sliceValue w)
  then show ?case by simp
next
  case (2 env t key rest sliceValue w)
  then show ?case by (simp add: emit_def)
next
  case (3 env t key bean rest sliceValue w)
  then show ?case by (cases "composeOne env t key bean sliceValue") simp_all
qed

lemma cacheFind_keeps_ids:
  assumes path: "cache_path env s sqlStr" and tbl: "RefTable s = Some table"
      and ids: "resolveIDList env table (TableName s) (idsql env s sqlStr) args w = (Inr ids, w1)"
  shows "ids_cache (snd (snd (cacheFind env s t sqlStr dest args w))) = ids_cache w1"
proof -
  let ?tn = "TableName s"
  obtain a2 w2 where r2: "resolveBeans env ?tn table t 0 ids (resolved0 (length ids)) w1 = (a2, w2)"
    by fastforce
  from resolveBeans_ids_cache[of env ?tn table t 0 ids "resolved0 (length ids)" w1] r2
  have i2: "ids_cache w2 = ids_cache w1" by simp
  show ?thesis
  proof (cases a2)
    case (Inl e)
    with r2 i2 show ?thesis unfolding cacheFind_staged[OF path tbl] ids by simp
  next
    case (Inr r)
    obtain a3 w3 where r3: "backfill env ?tn table t r w2 = (a3, w3)" by fastforce
    from backfill_ids_cache[of env ?tn table t r w2] r3 have i3: "ids_cache w3 = ids_cache w2"
      by simp
    show ?thesis
    proof (cases a3)
      case (Inl e)
      with Inr r2 r3 i2 i3 show ?thesis unfolding cacheFind_staged[OF path tbl] ids by simp
    next
      case tm: (Inr temps)
      with Inr r2 r3 i2 i3 composeResult_ids_cache[of env t "zip ids temps" dest w3]
      show ?thesis unfolding cacheFind_staged[OF path tbl] ids by simp
    qed
  qed
qed

text \<open>
  C1. On a cache-eligible \<open>find\<close> whose id list is not in the cache and whose ID-only query
  runs: when the query has more than 500 rows (the first 500 scanning into keys), the
  loop stops at row 501 without scanning it, \<open>cacheFind\<close> returns \<open>ErrCacheFailed\<close> with
  nothing cached and the destination untouched, and \<open>find\<close> is \<open>noCacheFind\<close> on the
  original SQL; when it has at most 500 rows, all scanning into keys, the id list is
  exactly those keys, it is stored under (table, ID-only SQL, arguments) and is still
  there when \<open>cacheFind\<close> returns.
\<close>

theorem id_cap_500:
  assumes prep: "prepare env s0 dest condiBean = Inr (s, sqlStr, args)"
      and path: "cache_path env s sqlStr"
      and tbl: "RefTable s = Some table"
      and miss: "GetCacheSql w (TableName s) (idsql env s sqlStr) args = None"
      and q: "queryRows env (idsql env s sqlStr) args = Inr rows"
  shows "(length (rows_data rows) > 500 \<and> all_scan env table (take 500 (rows_data rows)) \<longrightarrow>
            cacheFind env s (Elem (c_type dest)) sqlStr dest args w
              = (Some ErrCacheFailed, dest, emit (QueryRows (idsql env s sqlStr) args) w)
          \<and> find env s0 dest condiBean w
              = noCacheFind env (RefTable s) dest sqlStr args
                  (emit (Warnf ''Cache Find Failed'')
                     (emit (QueryRows (idsql env s sqlStr) args) w)))
       \<and> (length (rows_data rows) \<le> 500 \<and> all_scan env table (rows_data rows) \<and>
          rows_err rows = None \<longrightarrow>
            resolveIDList env table (TableName s) (idsql env s sqlStr) args w
              = (Inr (scanned_keys env table (rows_data rows)),
                 PutCacheSql (scanned_keys env table (rows_data rows)) (TableName s)
                   (idsql env s sqlStr) args (emit (QueryRows (idsql env s sqlStr) args) w))
          \<and> GetCacheSql (snd (snd (cacheFind env s (Elem (c_type dest)) sqlStr dest args w)))
                (TableName s) (idsql env s sqlStr) args
              = Some (scanned_keys env table (rows_data rows)))"
proof (intro conjI impI)
  let ?q = "idsql env s sqlStr"
  let ?t = "Elem (c_type dest)"
  {
    assume a: "length (rows_data rows) > 500 \<and> all_scan env table (take 500 (rows_data rows))"
    then have c: "collectIDs env table (rows_data rows) 0 [] = Inl ErrCacheFailed"
      using collectIDs_cap by blast
    have r: "resolveIDList env table (TableName s) ?q args w
               = (Inl ErrCacheFailed, emit (QueryRows ?q args) w)"
      using miss q c by (simp add: resolveIDList_def Let_def)
    show cf: "cacheFind env s ?t sqlStr dest args w
              = (Some ErrCacheFailed, dest, emit (QueryRows ?q args) w)"
      unfolding cacheFind_staged[OF path tbl] r by simp
    show "find env s0 dest condiBean w
              = noCacheFind env (RefTable s) dest sqlStr args
                  (emit (Warnf ''Cache Find Failed'') (emit (QueryRows ?q args) w))"
      unfolding find_cache_path[OF prep path] cf by simp
  }
  {
    assume b: "length (rows_data rows) \<le> 500 \<and> all_scan env table (rows_data rows) \<and>
          rows_err rows = None"
    then have c: "collectIDs env table (rows_data rows) 0 [] =
                    Inr ([] @ scanned_keys env table (rows_data rows))"
      using collectIDs_ok[of env table "rows_data rows" 0 "[]"] by simp
    show r: "resolveIDList env table (TableName s) ?q args w
              = (Inr (scanned_keys env table (rows_data rows)),
                 PutCacheSql (scanned_keys env table (rows_data rows)) (TableName s) ?q args
                   (emit (QueryRows ?q args) w))"
      using miss q c b by (simp add: resolveIDList_def Let_def)
    show "GetCacheSql (snd (snd (cacheFind env s ?t sqlStr dest args w))) (TableName s) ?q args
              = Some (scanned_keys env table (rows_data rows))"
      unfolding GetCacheSql_def cacheFind_keeps_ids[OF path tbl r]
      by (simp add: PutCacheSql_def)
  }
qed

section \<open>The direct path into a slice\<close>

lemma rows2Beans_slice:
  "all_materialise env tb et rows \<Longrightarrow>
   rows2Beans env tb et (sliceSet isPointer) rows rerr c =
     (rerr, c\<lparr>c_slice := c_slice c @ row_elems env tb et isPointer rows\<rparr>)"
proof (induction rows arbitrary: c)
  case Nil
  then show ?case by (simp add: row_elems_def)
next
  case (Cons row rows)
  from Cons.prems obtain b pk where b: "row2Bean env tb et row = Inr (b, pk)"
    by (cases "row2Bean env tb et row") (auto simp: all_materialise_def)
  from Cons.prems have a: "all_materialise env tb et rows" by (simp add: all_materialise_def)
  show ?case
    using Cons.IH[OF a] b by (simp add: sliceSet_def row_elems_def Let_def)
qed

lemma scanRows_slice:
  "all_scan_values env et rows \<Longrightarrow>
   scanRows env et (sliceSet isPointer) rows rerr c =
     (rerr, c\<lparr>c_slice := c_slice c @ scan_elems env et isPointer rows\<rparr>)"
proof (induction rows arbitrary: c)
  case Nil
  then show ?case by (simp add: scan_elems_def)
next
  case (Cons row rows)
  from Cons.prems obtain b where b: "scanValue env et row = Inr b"
    by (cases "scanValue env et row") (auto simp: all_scan_values_def)
  from Cons.prems have a: "all_scan_values env et rows" by (simp add: all_scan_values_def)
  show ?case
    using Cons.IH[OF a] b by (simp add: sliceSet_def scan_elems_def Let_def)
qed

lemma noCacheFind_slice_unfold:
  assumes sl: "KindOf (c_type c) = Slice"
      and pp: "KindOf (elem_type c) \<noteq> Ptr"
      and q: "queryRows env sqlStr args = Inr rows"
      and cols: "rows_columns rows = Inr fs"
      and tys: "rows_types rows = Inr types"
  shows "noCacheFind env table c sqlStr args w =
           (case materialise env (elem_type c) (sliceSet (KindOf (Elem (c_type c)) = Ptr))
                   rows fs types c of
              (err, c') \<Rightarrow> (err, c', emit (QueryRows sqlStr args) w))"
  using assms unfolding noCacheFind_def elem_type_def Let_def by simp

lemma noCacheFind_slice_struct:
  assumes sl: "KindOf (c_type c) = Slice"
      and st: "KindOf (elem_type c) = Struct"
      and q: "queryRows env sqlStr args = Inr rows"
      and cols: "rows_columns rows = Inr fs"
      and tys: "rows_types rows = Inr types"
      and len: "length fs \<le> length types"
      and tb: "ParseWithCache env (elem_type c) = Inr tb"
      and mat: "all_materialise env tb (elem_type c) (rows_data rows)"
      and rerr: "rows_err rows = None"
  shows "noCacheFind env table c sqlStr args w =
           (executeProcessors env,
            c\<lparr>c_slice := c_slice c @
                 row_elems env tb (elem_type c) (KindOf (Elem (c_type c)) = Ptr) (rows_data rows)\<rparr>,
            emit (QueryRows sqlStr args) w)"
proof -
  have pp: "KindOf (elem_type c) \<noteq> Ptr" using st by simp
  obtain cs where cs: "ParseColumnsSchema (ToLower env) fs types (Some tb) = Inr cs"
    using len by (auto simp: ParseColumnsSchema_def)
  have m: "materialise env (elem_type c) (sliceSet (KindOf (Elem (c_type c)) = Ptr)) rows fs types c
           = (executeProcessors env,
              c\<lparr>c_slice := c_slice c @
                 row_elems env tb (elem_type c) (KindOf (Elem (c_type c)) = Ptr) (rows_data rows)\<rparr>)"
    using st tb cs rerr by (simp add: materialise_def rows2Beans_slice[OF mat])
  show ?thesis
    unfolding noCacheFind_slice_unfold[OF sl pp q cols tys] m by simp
qed

lemma noCacheFind_slice_scalar:
  assumes sl: "KindOf (c_type c) = Slice"
      and st: "KindOf (elem_type c) \<noteq> Struct" and pp: "KindOf (elem_type c) \<noteq> Ptr"
      and q: "queryRows env sqlStr args = Inr rows"
      and cols: "rows_columns rows = Inr fs"
      and tys: "rows_types rows = Inr types"
      and mat: "all_scan_values env (elem_type c) (rows_data rows)"
  shows "noCacheFind env table c sqlStr args w =
           (rows_err rows,
            c\<lparr>c_slice := c_slice c @
                 scan_elems env (elem_type c) (KindOf (Elem (c_type c)) = Ptr) (rows_data rows)\<rparr>,
            emit (QueryRows sqlStr args) w)"
proof -
  have m: "materialise env (elem_type c) (sliceSet (KindOf (Elem (c_type c)) = Ptr)) rows fs types c
           = (rows_err rows,
              c\<lparr>c_slice := c_slice c @
                 scan_elems env (elem_type c) (KindOf (Elem (c_type c)) = Ptr) (rows_data rows)\<rparr>)"
    using st by (simp add: materialise_def scanRows_slice[OF mat])
  show ?thesis
    unfolding noCacheFind_slice_unfold[OF sl pp q cols tys] m by simp
qed

lemma demo_queryRows:
  "queryRows (demo_env demo_table db) sql args =
     Inr \<lparr>rows_columns = Inr [''id'', ''name''], rows_types = Inr [''INT'', ''TEXT''],
          rows_data = db, rows_err = None\<rparr>"
  by (simp add: demo_env_def)

lemma demo_all_scan: "all_scan (demo_env demo_table db) demo_table rows"
  by (simp add: all_scan_def demo_env_def list_all_iff)

lemma demo_all_materialise: "all_materialise (demo_env demo_table db) demo_table ty rows"
  by (simp add: all_materialise_def demo_env_def list_all_iff)

lemma demo_noCacheFind:
  "noCacheFind (demo_env demo_table db) tbo (demo_slice (StructT ''User'')) sql args w =
     (None,
      (demo_slice (StructT ''User''))\<lparr>c_slice :=
         row_elems (demo_env demo_table db) demo_table (StructT ''User'') False db\<rparr>,
      emit (QueryRows sql args) w)"
proof -
  let ?env = "demo_env demo_table db"
  let ?c = "demo_slice (StructT ''User'')"
  let ?rows = "\<lparr>rows_columns = Inr [''id'', ''name''], rows_types = Inr [''INT'', ''TEXT''],
          rows_data = db, rows_err = None\<rparr>"
  have et: "elem_type ?c = StructT ''User''" by (simp add: elem_type_def demo_slice_def)
  have st: "KindOf (elem_type ?c) = Struct" by (simp add: et)
  have cols: "rows_columns ?rows = Inr [''id'', ''name'']" by simp
  have tys: "rows_types ?rows = Inr [''INT'', ''TEXT'']" by simp
  have len: "length [''id'', ''name''] \<le> length [''INT'', ''TEXT'']" by simp
  have tb: "ParseWithCache ?env (elem_type ?c) = Inr demo_table" by (simp add: demo_env_def)
  have mat: "all_materialise ?env demo_table (elem_type ?c) (rows_data ?rows)"
    by (rule demo_all_materialise)
  have rerr: "rows_err ?rows = None" by simp
  have ep: "executeProcessors ?env = None" by (simp add: demo_env_def)
  show ?thesis
    using noCacheFind_slice_struct[OF demo_kind st demo_queryRows cols tys len tb mat rerr,
        of tbo sql args w]
    unfolding et ep by (simp add: demo_slice_def)
qed

theorem id_cap_500_witness:
  "find (demo_env demo_table demo_big) demo_session (demo_slice (StructT ''User'')) [] demo_world
     = (None,
        (demo_slice (StructT ''User''))\<lparr>c_slice :=
           replicate 501 (ValOf (demo_bean (StructT ''User'') ''1'' ''a''))\<rparr>,
        emit (QueryRows ''SELECT * FROM user'' []) (emit (Warnf ''Cache Find Failed'')
          (emit (QueryRows ''SELECT id  FROM user'' []) demo_world)))
   \<and> GetCacheSql (snd (snd (cacheFind (demo_env demo_table demo_db) demo_find_session
         (StructT ''User'') ''SELECT * FROM user'' (demo_slice (StructT ''User'')) [] demo_world)))
       ''user'' ''SELECT id  FROM user'' [] = Some [[StrV ''1''], [StrV ''2'']]"
proof -
  let ?c = "demo_slice (StructT ''User'')"
  let ?rows = "\<lambda>db. \<lparr>rows_columns = Inr [''id'', ''name''], rows_types = Inr [''INT'', ''TEXT''],
          rows_data = db, rows_err = None\<rparr>"
  have miss: "GetCacheSql demo_world (TableName demo_find_session)
                (idsql (demo_env demo_table db) demo_find_session ''SELECT * FROM user'') [] = None" for db
    by (simp add: GetCacheSql_def demo_world_def)
  have q: "queryRows (demo_env demo_table db)
             (idsql (demo_env demo_table db) demo_find_session ''SELECT * FROM user'') [] = Inr (?rows db)" for db
    by (rule demo_queryRows)
  have big: "length (rows_data (?rows demo_big)) > 500 \<and>
             all_scan (demo_env demo_table demo_big) demo_table (take 500 (rows_data (?rows demo_big)))"
    by (simp add: demo_big_def demo_all_scan)
  have small: "length (rows_data (?rows demo_db)) \<le> 500 \<and>
               all_scan (demo_env demo_table demo_db) demo_table (rows_data (?rows demo_db)) \<and>
               rows_err (?rows demo_db) = None"
    by (simp add: demo_db_def demo_all_scan)
  have keys: "scanned_keys (demo_env demo_table demo_db) demo_table demo_db = [[StrV ''1''], [StrV ''2'']]"
    by (simp add: scanned_keys_def demo_env_def demo_db_def demo_table_def)
  have elems: "row_elems (demo_env demo_table demo_big) demo_table (StructT ''User'') False demo_big
               = replicate 501 (ValOf (demo_bean (StructT ''User'') ''1'' ''a''))"
    by (simp add: row_elems_def demo_big_def demo_env_def demo_fields_def demo_bean_def)
  from id_cap_500[OF demo_prepare_plain demo_cache_path demo_tbl miss q, of demo_big] big
  have 1: "find (demo_env demo_table demo_big) demo_session ?c [] demo_world
           = noCacheFind (demo_env demo_table demo_big) (RefTable demo_find_session) ?c
               ''SELECT * FROM user'' []
               (emit (Warnf ''Cache Find Failed'')
                  (emit (QueryRows ''SELECT id  FROM user'' []) demo_world))"
    unfolding demo_idsql demo_t by simp
  from id_cap_500[OF demo_prepare_plain demo_cache_path demo_tbl miss q, of demo_db] small
  have 2: "GetCacheSql (snd (snd (cacheFind (demo_env demo_table demo_db) demo_find_session
         (StructT ''User'') ''SELECT * FROM user'' ?c [] demo_world)))
       ''user'' ''SELECT id  FROM user'' [] = Some [[StrV ''1''], [StrV ''2'']]"
    unfolding demo_idsql demo_t demo_tn by (simp add: keys)
  from 1 2 show ?thesis
    by (simp add: demo_noCacheFind elems)
qed

section \<open>Shape errors\<close>











section \<open>Invalidation on insert\<close>


lemma ids_cleared_emit_left: "ids_cleared tn (emit ev w) w' = ids_cleared tn w w'"
  by (simp add: ids_cleared_def emit_def)
















section \<open>The order of a cache-assisted result\<close>

lemma resolve_inv_init: "resolve_inv env tn tb t w n [] (resolved0 n)"
  by (simp add: resolve_inv_def resolved0_def)

lemma resolveOne_cases:
  assumes "resolveOne env tn tb t idx pk r w = (Inr r', w')"
  shows "\<exists>sid. pk_sid env pk = Some sid \<and>
           ((hit_at env tn t w pk = None \<and>
             r' = r\<lparr>r_ides := r_ides r @ [pk], r_ididxes := (r_ididxes r)(sid \<mapsto> idx)\<rparr>) \<or>
            (\<exists>b. hit_at env tn t w pk = Some b \<and> bean_sid env tb b = Some sid \<and>
                 r' = r\<lparr>r_temps := (r_temps r)[idx := Some b]\<rparr>))"
proof (cases "PKToString env pk")
  case (Inl e)
  with assms show ?thesis by (simp add: resolveOne_def)
next
  case (Inr sid)
  then have ps: "pk_sid env pk = Some sid" by (simp add: pk_sid_def)
  show ?thesis
  proof (cases "isHit t (GetBean w tn sid)")
    case False
    then have h: "hit_at env tn t w pk = None" by (simp add: hit_at_def ps hit_of_def)
    from assms Inr False
    have "r' = r\<lparr>r_ides := r_ides r @ [pk], r_ididxes := (r_ididxes r)(sid \<mapsto> idx)\<rparr>"
      by (simp add: resolveOne_def)
    with ps h show ?thesis by blast
  next
    case True
    then obtain b where b: "GetBean w tn sid = Some b"
      by (cases "GetBean w tn sid") (simp_all add: isHit_None)
    with True have h: "hit_at env tn t w pk = Some b" by (simp add: hit_at_def ps hit_of_def)
    from assms Inr True b obtain pk' where pk': "IDOfV env tb b = Inr pk'"
      by (cases "IDOfV env tb b") (simp_all add: resolveOne_def)
    from assms Inr True b pk' obtain xid where xid: "PKToString env pk' = Inr xid"
      by (cases "PKToString env pk'") (simp_all add: resolveOne_def)
    from assms Inr True b pk' xid have eq: "sid = xid"
      by (cases "sid = xid") (simp_all add: resolveOne_def)
    from assms Inr True b pk' xid eq have r': "r' = r\<lparr>r_temps := (r_temps r)[idx := Some b]\<rparr>"
      by (simp add: resolveOne_def)
    have "bean_sid env tb b = Some sid" using pk' xid eq by (simp add: bean_sid_def pk_sid_def)
    with ps h r' show ?thesis by blast
  qed
qed

lemma resolve_inv_step:
  assumes inv: "resolve_inv env tn tb t w n xs r" and len: "length xs < n"
      and one: "resolveOne env tn tb t (length xs) pk r w = (Inr r', w')"
  shows "resolve_inv env tn tb t w n (xs @ [pk]) r'"
proof -
  from inv have L: "length (r_temps r) = n"
    and T: "\<And>j. j < n \<Longrightarrow> r_temps r ! j = (if j < length xs then hit_at env tn t w (xs ! j) else None)"
    and I: "r_ides r = filter (\<lambda>pk. hit_at env tn t w pk = None) xs"
    and D: "\<And>sid j. r_ididxes r sid = Some j \<Longrightarrow>
          j < length xs \<and> pk_sid env (xs ! j) = Some sid \<and> hit_at env tn t w (xs ! j) = None"
    and C: "\<And>j. j < length xs \<Longrightarrow> hit_at env tn t w (xs ! j) = None \<Longrightarrow>
          (\<exists>sid k. pk_sid env (xs ! j) = Some sid \<and> r_ididxes r sid = Some k)"
    and S: "\<And>j. j < length xs \<Longrightarrow> pk_sid env (xs ! j) \<noteq> None \<and>
          (\<forall>b. hit_at env tn t w (xs ! j) = Some b \<longrightarrow> bean_sid env tb b = pk_sid env (xs ! j))"
    unfolding resolve_inv_def by blast+
  from resolveOne_cases[OF one] obtain sid where ps: "pk_sid env pk = Some sid"
    and alt: "(hit_at env tn t w pk = None \<and>
             r' = r\<lparr>r_ides := r_ides r @ [pk], r_ididxes := (r_ididxes r)(sid \<mapsto> length xs)\<rparr>) \<or>
            (\<exists>b. hit_at env tn t w pk = Some b \<and> bean_sid env tb b = Some sid \<and>
                 r' = r\<lparr>r_temps := (r_temps r)[length xs := Some b]\<rparr>)"
    by blast
  have nth_old: "\<And>j. j < length xs \<Longrightarrow> (xs @ [pk]) ! j = xs ! j" by (simp add: nth_append)
  have nth_new: "(xs @ [pk]) ! length xs = pk" by simp
  from alt show ?thesis
  proof
    assume a: "hit_at env tn t w pk = None \<and>
             r' = r\<lparr>r_ides := r_ides r @ [pk], r_ididxes := (r_ididxes r)(sid \<mapsto> length xs)\<rparr>"
    then have h: "hit_at env tn t w pk = None"
      and r': "r' = r\<lparr>r_ides := r_ides r @ [pk], r_ididxes := (r_ididxes r)(sid \<mapsto> length xs)\<rparr>"
      by simp_all
    have 1: "length (r_temps r') = n" using L r' by simp
    have 2: "\<forall>j<n. r_temps r' ! j =
               (if j < length (xs @ [pk]) then hit_at env tn t w ((xs @ [pk]) ! j) else None)"
    proof (intro allI impI)
      fix j assume j: "j < n"
      show "r_temps r' ! j =
               (if j < length (xs @ [pk]) then hit_at env tn t w ((xs @ [pk]) ! j) else None)"
      proof (cases "j < length xs")
        case True
        then show ?thesis using T[OF j] r' by (simp add: nth_append)
      next
        case False
        show ?thesis
        proof (cases "j = length xs")
          case True
          then show ?thesis using T[OF j] r' h by simp
        next
          case f: False
          with False show ?thesis using T[OF j] r' by simp
        qed
      qed
    qed
    have 3: "r_ides r' = filter (\<lambda>pk. hit_at env tn t w pk = None) (xs @ [pk])"
      using I r' h by simp
    have 4: "\<forall>s j. r_ididxes r' s = Some j \<longrightarrow>
          j < length (xs @ [pk]) \<and> pk_sid env ((xs @ [pk]) ! j) = Some s \<and>
          hit_at env tn t w ((xs @ [pk]) ! j) = None"
    proof (intro allI impI)
      fix s j assume sj: "r_ididxes r' s = Some j"
      show "j < length (xs @ [pk]) \<and> pk_sid env ((xs @ [pk]) ! j) = Some s \<and>
          hit_at env tn t w ((xs @ [pk]) ! j) = None"
      proof (cases "s = sid")
        case True
        with sj r' have "j = length xs" by simp
        with True ps h show ?thesis by simp
      next
        case False
        with sj r' have "r_ididxes r s = Some j" by simp
        from D[OF this] show ?thesis by (simp add: nth_append)
      qed
    qed
    have 5: "\<forall>j<length (xs @ [pk]). hit_at env tn t w ((xs @ [pk]) ! j) = None \<longrightarrow>
          (\<exists>s k. pk_sid env ((xs @ [pk]) ! j) = Some s \<and> r_ididxes r' s = Some k)"
    proof (intro allI impI)
      fix j assume j: "j < length (xs @ [pk])" and m: "hit_at env tn t w ((xs @ [pk]) ! j) = None"
      show "\<exists>s k. pk_sid env ((xs @ [pk]) ! j) = Some s \<and> r_ididxes r' s = Some k"
      proof (cases "j < length xs")
        case True
        with m have "hit_at env tn t w (xs ! j) = None" by (simp add: nth_append)
        from C[OF True this] obtain s k where sk: "pk_sid env (xs ! j) = Some s" "r_ididxes r s = Some k"
          by blast
        have "\<exists>k'. r_ididxes r' s = Some k'" using sk(2) r' by (cases "s = sid") simp_all
        with sk(1) True show ?thesis by (auto simp: nth_append)
      next
        case False
        with j have "j = length xs" by simp
        then show ?thesis using ps r' by simp
      qed
    qed
    have 6: "\<forall>j<length (xs @ [pk]). pk_sid env ((xs @ [pk]) ! j) \<noteq> None \<and>
          (\<forall>b. hit_at env tn t w ((xs @ [pk]) ! j) = Some b \<longrightarrow>
               bean_sid env tb b = pk_sid env ((xs @ [pk]) ! j))"
    proof (intro allI impI)
      fix j assume j: "j < length (xs @ [pk])"
      show "pk_sid env ((xs @ [pk]) ! j) \<noteq> None \<and>
          (\<forall>b. hit_at env tn t w ((xs @ [pk]) ! j) = Some b \<longrightarrow>
               bean_sid env tb b = pk_sid env ((xs @ [pk]) ! j))"
      proof (cases "j < length xs")
        case True
        with S[OF True] show ?thesis by (simp add: nth_append)
      next
        case False
        with j have "j = length xs" by simp
        then show ?thesis using ps h by simp
      qed
    qed
    from 1 2 3 4 5 6 show ?thesis unfolding resolve_inv_def by blast
  next
    assume "\<exists>b. hit_at env tn t w pk = Some b \<and> bean_sid env tb b = Some sid \<and>
                 r' = r\<lparr>r_temps := (r_temps r)[length xs := Some b]\<rparr>"
    then obtain b where h: "hit_at env tn t w pk = Some b" and bs: "bean_sid env tb b = Some sid"
      and r': "r' = r\<lparr>r_temps := (r_temps r)[length xs := Some b]\<rparr>" by blast
    have 1: "length (r_temps r') = n" using L r' by simp
    have 2: "\<forall>j<n. r_temps r' ! j =
               (if j < length (xs @ [pk]) then hit_at env tn t w ((xs @ [pk]) ! j) else None)"
    proof (intro allI impI)
      fix j assume j: "j < n"
      show "r_temps r' ! j =
               (if j < length (xs @ [pk]) then hit_at env tn t w ((xs @ [pk]) ! j) else None)"
      proof (cases "j = length xs")
        case True
        then show ?thesis using r' h L len by simp
      next
        case False
        then show ?thesis using T[OF j] r' by (auto simp: nth_append)
      qed
    qed
    have 3: "r_ides r' = filter (\<lambda>pk. hit_at env tn t w pk = None) (xs @ [pk])"
      using I r' h by simp
    have 4: "\<forall>s j. r_ididxes r' s = Some j \<longrightarrow>
          j < length (xs @ [pk]) \<and> pk_sid env ((xs @ [pk]) ! j) = Some s \<and>
          hit_at env tn t w ((xs @ [pk]) ! j) = None"
    proof (intro allI impI)
      fix s j assume "r_ididxes r' s = Some j"
      with r' have "r_ididxes r s = Some j" by simp
      from D[OF this] show "j < length (xs @ [pk]) \<and> pk_sid env ((xs @ [pk]) ! j) = Some s \<and>
          hit_at env tn t w ((xs @ [pk]) ! j) = None" by (simp add: nth_append)
    qed
    have 5: "\<forall>j<length (xs @ [pk]). hit_at env tn t w ((xs @ [pk]) ! j) = None \<longrightarrow>
          (\<exists>s k. pk_sid env ((xs @ [pk]) ! j) = Some s \<and> r_ididxes r' s = Some k)"
    proof (intro allI impI)
      fix j assume j: "j < length (xs @ [pk])" and m: "hit_at env tn t w ((xs @ [pk]) ! j) = None"
      have jl: "j < length xs"
      proof (rule ccontr)
        assume "\<not> j < length xs"
        with j have "j = length xs" by simp
        with m h show False by simp
      qed
      with m have "hit_at env tn t w (xs ! j) = None" by (simp add: nth_append)
      from C[OF jl this] r' jl
      show "\<exists>s k. pk_sid env ((xs @ [pk]) ! j) = Some s \<and> r_ididxes r' s = Some k"
        by (simp add: nth_append)
    qed
    have 6: "\<forall>j<length (xs @ [pk]). pk_sid env ((xs @ [pk]) ! j) \<noteq> None \<and>
          (\<forall>b. hit_at env tn t w ((xs @ [pk]) ! j) = Some b \<longrightarrow>
               bean_sid env tb b = pk_sid env ((xs @ [pk]) ! j))"
    proof (intro allI impI)
      fix j assume j: "j < length (xs @ [pk])"
      show "pk_sid env ((xs @ [pk]) ! j) \<noteq> None \<and>
          (\<forall>b. hit_at env tn t w ((xs @ [pk]) ! j) = Some b \<longrightarrow>
               bean_sid env tb b = pk_sid env ((xs @ [pk]) ! j))"
      proof (cases "j < length xs")
        case True
        with S[OF True] show ?thesis by (simp add: nth_append)
      next
        case False
        with j have "j = length xs" by simp
        then show ?thesis using ps h bs by simp
      qed
    qed
    from 1 2 3 4 5 6 show ?thesis unfolding resolve_inv_def by blast
  qed
qed

lemma resolveBeans_inv:
  "length xs \<le> n \<Longrightarrow> resolveBeans env tn tb t 0 xs (resolved0 n) w = (Inr r, w') \<Longrightarrow>
   resolve_inv env tn tb t w n xs r"
proof (induction xs arbitrary: r w' rule: rev_induct)
  case Nil
  then show ?case using resolve_inv_init[of env tn tb t w n] by simp
next
  case (snoc x xs)
  from snoc.prems(2) obtain r1 w1 where
    p: "resolveBeans env tn tb t 0 xs (resolved0 n) w = (Inr r1, w1)" and
    o: "resolveBeans env tn tb t (0 + length xs) [x] r1 w1 = (Inr r, w')"
    unfolding resolveBeans_append
    by (cases "resolveBeans env tn tb t 0 xs (resolved0 n) w")
       (auto split: sum.splits)
  from resolveBeans_world[OF p] have w1: "w1 = w" .
  from snoc.prems(1) have l: "length xs \<le> n" and l': "length xs < n" by simp_all
  from snoc.IH[OF l p] have inv: "resolve_inv env tn tb t w n xs r1" .
  from o w1 have one: "resolveOne env tn tb t (length xs) x r1 w = (Inr r, w')"
    by (auto split: sum.splits prod.splits)
  from resolve_inv_step[OF inv l' one] show ?case .
qed

lemma placeOne_ok:
  assumes "bean_sid env tb rv = Some sid"
  shows "placeOne env tn tb ix rv temps w = (Inr (place_upd env tb ix temps rv), PutBean tn sid rv w)"
  using assms
  by (auto simp: placeOne_def bean_sid_def pk_sid_def place_upd_def slot_index_def
      split: sum.splits)

lemma placeOne_fail:
  assumes "bean_sid env tb rv = None"
  shows "\<exists>e. placeOne env tn tb ix rv temps w = (Inl e, w)"
  using assms
  by (auto simp: placeOne_def bean_sid_def pk_sid_def split: sum.splits)

lemma placeBeans_success_sids:
  "fst (placeBeans env tn tb ix bs temps w) = Inr temps' \<Longrightarrow> \<forall>b\<in>set bs. bean_sid env tb b \<noteq> None"
proof (induction bs arbitrary: temps w)
  case Nil
  then show ?case by simp
next
  case (Cons b bs)
  show ?case
  proof (cases "bean_sid env tb b")
    case None
    from placeOne_fail[OF None, of tn ix temps w] Cons.prems show ?thesis by auto
  next
    case (Some sid)
    from Cons.prems placeOne_ok[OF Some, of tn ix temps w]
    have "fst (placeBeans env tn tb ix bs (place_upd env tb ix temps b) (PutBean tn sid b w)) = Inr temps'"
      by simp
    from Cons.IH[OF this] Some show ?thesis by simp
  qed
qed

lemma placeBeans_fold:
  "\<forall>b\<in>set bs. bean_sid env tb b \<noteq> None \<Longrightarrow>
   fst (placeBeans env tn tb ix bs temps w) = Inr (foldl (place_upd env tb ix) temps bs)"
proof (induction bs arbitrary: temps w)
  case Nil
  then show ?case by simp
next
  case (Cons b bs)
  from Cons.prems obtain sid where s: "bean_sid env tb b = Some sid" by auto
  from Cons.prems have r: "\<forall>b\<in>set bs. bean_sid env tb b \<noteq> None" by simp
  show ?case
    using placeOne_ok[OF s, of tn ix temps w] Cons.IH[OF r] by simp
qed

lemma foldl_place_length: "length (foldl (place_upd env tb ix) temps bs) = length temps"
  by (induction bs arbitrary: temps) (simp_all add: place_upd_def)

lemma foldl_place_nth:
  "j < length temps \<Longrightarrow>
   foldl (place_upd env tb ix) temps bs ! j =
     (case List.find (\<lambda>b. slot_index env tb ix b = j) (rev bs) of
        Some b \<Rightarrow> Some b
      | None \<Rightarrow> temps ! j)"
proof (induction bs rule: rev_induct)
  case Nil
  then show ?case by simp
next
  case (snoc b bs)
  let ?F = "foldl (place_upd env tb ix) temps bs"
  have l: "j < length ?F"
    using snoc.prems by (simp add: foldl_place_length)
  have step: "foldl (place_upd env tb ix) temps (bs @ [b]) = ?F[slot_index env tb ix b := Some b]"
    by (simp add: place_upd_def[of env tb ix ?F b])
  show ?case
  proof (cases "slot_index env tb ix b = j")
    case True
    have "?F[slot_index env tb ix b := Some b] ! j = Some b"
      using True l by simp
    then show ?thesis unfolding step using True by simp
  next
    case False
    have "?F[slot_index env tb ix b := Some b] ! j = ?F ! j"
      using False by simp
    then show ?thesis unfolding step using False snoc.IH[OF snoc.prems] by simp
  qed
qed

lemma find_distinct_key:
  "distinct (map f xs) \<Longrightarrow>
   List.find (\<lambda>x. f x = k) xs = Some x \<longleftrightarrow> x \<in> set xs \<and> f x = k"
proof (induction xs)
  case Nil
  then show ?case by simp
next
  case (Cons a xs)
  then show ?case by (auto simp: image_iff)
qed

lemma find_none_key: "List.find (\<lambda>x. f x = k) xs = None \<longleftrightarrow> (\<forall>x\<in>set xs. f x \<noteq> k)"
  by (induction xs) auto

lemma find_perm:
  assumes d: "distinct (map f xs)" and m: "mset ys = mset xs"
  shows "List.find (\<lambda>x. f x = k) ys = List.find (\<lambda>x. f x = k) xs"
proof -
  from m have s: "set ys = set xs" by (rule mset_eq_setD)
  from m have "mset (map f ys) = mset (map f xs)" by simp
  from mset_eq_imp_distinct_iff[OF this] d have d': "distinct (map f ys)" by simp
  show ?thesis
  proof (cases "List.find (\<lambda>x. f x = k) xs")
    case None
    then have "\<forall>x\<in>set ys. f x \<noteq> k" using s by (simp add: find_none_key)
    then have "List.find (\<lambda>x. f x = k) ys = None" by (simp add: find_none_key)
    with None show ?thesis by simp
  next
    case (Some x)
    then have "x \<in> set ys \<and> f x = k" using find_distinct_key[OF d] s by simp
    then have "List.find (\<lambda>x. f x = k) ys = Some x" using find_distinct_key[OF d'] by simp
    with Some show ?thesis by simp
  qed
qed

lemma foldl_place_perm:
  assumes d: "distinct (map (slot_index env tb ix) bs)" and m: "mset bs' = mset bs"
  shows "foldl (place_upd env tb ix) temps bs' = foldl (place_upd env tb ix) temps bs"
proof (rule nth_equalityI)
  show "length (foldl (place_upd env tb ix) temps bs') = length (foldl (place_upd env tb ix) temps bs)"
    by (simp add: foldl_place_length)
next
  fix j assume "j < length (foldl (place_upd env tb ix) temps bs')"
  then have j: "j < length temps" by (simp add: foldl_place_length)
  have d': "distinct (map (slot_index env tb ix) (rev bs))" using d by (simp add: rev_map[symmetric])
  have m': "mset (rev bs') = mset (rev bs)" using m by simp
  show "foldl (place_upd env tb ix) temps bs' ! j = foldl (place_upd env tb ix) temps bs ! j"
    unfolding foldl_place_nth[OF j] find_perm[OF d' m'] ..
qed

lemma slot_index_distinct:
  assumes D: "\<forall>sid j. ix sid = Some j \<longrightarrow> pk_sid env (ids ! j) = Some sid"
      and within: "backfill_within env tb ix bs"
      and sids: "\<forall>b\<in>set bs. bean_sid env tb b \<noteq> None"
      and dist: "distinct (map (bean_sid env tb) bs)"
  shows "distinct (map (slot_index env tb ix) bs)"
proof -
  have key: "\<exists>sid. bean_sid env tb b = Some sid \<and> ix sid = Some (slot_index env tb ix b)"
    if b: "b \<in> set bs" for b
  proof -
    from sids b obtain sid where s: "bean_sid env tb b = Some sid" by auto
    from within b have "case bean_sid env tb b of None \<Rightarrow> True | Some sid \<Rightarrow> ix sid \<noteq> None"
      unfolding backfill_within_def list_all_iff by blast
    with s obtain j where j: "ix sid = Some j" by auto
    from s j have "slot_index env tb ix b = j" by (simp add: slot_index_def)
    with s j show ?thesis by simp
  qed
  have same: "bean_sid env tb b = bean_sid env tb b'"
    if b: "b \<in> set bs" and b': "b' \<in> set bs"
      and e: "slot_index env tb ix b = slot_index env tb ix b'" for b b'
  proof -
    from key[OF b] obtain sid where s: "bean_sid env tb b = Some sid"
      "ix sid = Some (slot_index env tb ix b)" by blast
    from key[OF b'] obtain sid' where s': "bean_sid env tb b' = Some sid'"
      "ix sid' = Some (slot_index env tb ix b')" by blast
    from D s(2) have 1: "pk_sid env (ids ! slot_index env tb ix b) = Some sid" by blast
    from D s'(2) have 2: "pk_sid env (ids ! slot_index env tb ix b') = Some sid'" by blast
    from 1 2 e have "sid = sid'" by simp
    with s s' show ?thesis by simp
  qed
  show ?thesis
  proof (rule ccontr)
    assume "\<not> distinct (map (slot_index env tb ix) bs)"
    then obtain i j where ij: "i < length bs" "j < length bs" "i \<noteq> j"
      "slot_index env tb ix (bs ! i) = slot_index env tb ix (bs ! j)"
      unfolding distinct_conv_nth by auto
    from ij(1) have bi: "bs ! i \<in> set bs" by simp
    from ij(2) have bj: "bs ! j \<in> set bs" by simp
    from same[OF bi bj ij(4)] have "map (bean_sid env tb) bs ! i = map (bean_sid env tb) bs ! j"
      using ij by simp
    with dist ij show False unfolding distinct_conv_nth by simp
  qed
qed

lemma slots_match_place:
  assumes D: "\<forall>sid j. ix sid = Some j \<longrightarrow> j < length ids \<and> pk_sid env (ids ! j) = Some sid"
      and sm: "slots_match env tb ids temps"
      and s: "bean_sid env tb b = Some sid" and i: "ix sid \<noteq> None"
  shows "slots_match env tb ids (place_upd env tb ix temps b)"
proof -
  from i obtain j where j: "ix sid = Some j" by auto
  from D j have jl: "j < length ids" and ps: "pk_sid env (ids ! j) = Some sid" by blast+
  have si: "slot_index env tb ix b = j" using s j by (simp add: slot_index_def)
  have ok: "slot_ok env tb (ids ! j) (Some b)" using s ps by (simp add: slot_ok_def)
  from sm have l: "list_all2 (slot_ok env tb) ids temps" unfolding slots_match_def .
  have "list_all2 (slot_ok env tb) (ids[j := ids ! j]) (temps[j := Some b])"
    using l ok by (rule list_all2_update_cong)
  then show ?thesis
    unfolding slots_match_def place_upd_def si by simp
qed

lemma slots_match_foldl:
  assumes D: "\<forall>sid j. ix sid = Some j \<longrightarrow> j < length ids \<and> pk_sid env (ids ! j) = Some sid"
  shows "slots_match env tb ids temps \<Longrightarrow> backfill_within env tb ix bs \<Longrightarrow>
         \<forall>b\<in>set bs. bean_sid env tb b \<noteq> None \<Longrightarrow>
         slots_match env tb ids (foldl (place_upd env tb ix) temps bs)"
proof (induction bs arbitrary: temps)
  case Nil
  then show ?case by simp
next
  case (Cons b bs)
  from Cons.prems(3) obtain sid where s: "bean_sid env tb b = Some sid" by auto
  from Cons.prems(2) s have i: "ix sid \<noteq> None"
    by (simp add: backfill_within_def)
  from Cons.prems(2) have w: "backfill_within env tb ix bs" by (simp add: backfill_within_def)
  from Cons.prems(3) have r: "\<forall>b\<in>set bs. bean_sid env tb b \<noteq> None" by simp
  have "slots_match env tb ids (place_upd env tb ix temps b)"
    using D Cons.prems(1) s i by (rule slots_match_place)
  from Cons.IH[OF this w r] show ?case by simp
qed

lemma resolve_inv_slots:
  assumes "resolve_inv env tn tb t w (length ids) ids r"
  shows "slots_match env tb ids (r_temps r)"
  unfolding slots_match_def
proof (rule list_all2_all_nthI)
  from assms show "length ids = length (r_temps r)" by (simp add: resolve_inv_def)
next
  fix j assume j: "j < length ids"
  from assms j have t: "r_temps r ! j = hit_at env tn t w (ids ! j)"
    unfolding resolve_inv_def by simp
  from assms j have s: "pk_sid env (ids ! j) \<noteq> None \<and>
          (\<forall>b. hit_at env tn t w (ids ! j) = Some b \<longrightarrow> bean_sid env tb b = pk_sid env (ids ! j))"
    unfolding resolve_inv_def by blast
  show "slot_ok env tb (ids ! j) (r_temps r ! j)"
    unfolding t using s by (cases "hit_at env tn t w (ids ! j)") (simp_all add: slot_ok_def)
qed

lemma slots_match_keys:
  "slots_match env tb ids temps \<Longrightarrow>
   map (bean_sid env tb) (beans_of (zip ids temps))
     = map (\<lambda>kb. pk_sid env (fst kb)) (filled (zip ids temps))"
  unfolding slots_match_def
proof (induction ids temps rule: list_all2_induct)
  case Nil
  then show ?case by (simp add: beans_of_def filled_def List.map_filter_simps)
next
  case (Cons x xs y ys)
  then show ?case
    by (cases y) (simp_all add: beans_of_def filled_def List.map_filter_simps slot_ok_def)
qed

lemma backfill_temps:
  assumes inv: "resolve_inv env tn tb t w1 (length ids) ids r"
      and bf: "backfill env tn tb t r w2 = (Inr temps, w3)"
  shows "(r_ides r = [] \<and> temps = r_temps r) \<or>
         (\<exists>vs. r_ides r \<noteq> [] \<and> nestedFind env tn t (r_ides r) = Inr vs \<and>
               (\<forall>b\<in>set (typed_beans t vs). bean_sid env tb b \<noteq> None) \<and>
               temps = foldl (place_upd env tb (r_ididxes r)) (r_temps r) (typed_beans t vs))"
proof (cases "r_ides r = []")
  case True
  with bf show ?thesis by (simp add: backfill_def)
next
  case False
  then have l: "length (r_ides r) > 0" by simp
  from bf l obtain vs where nf: "nestedFind env tn t (r_ides r) = Inr vs"
    by (cases "nestedFind env tn t (r_ides r)") (simp_all add: backfill_def Let_def)
  from bf l nf have p: "fst (placeBeans env tn tb (r_ididxes r) (typed_beans t vs) (r_temps r)
                              (emit (Backfill tn (r_ides r)) w2)) = Inr temps"
    by (simp add: backfill_def Let_def typed_beans_def)
  from placeBeans_success_sids[OF p]
  have sids: "\<forall>b\<in>set (typed_beans t vs). bean_sid env tb b \<noteq> None" .
  from placeBeans_fold[OF sids, of tn "r_ididxes r" "r_temps r" "emit (Backfill tn (r_ides r)) w2"] p
  have "temps = foldl (place_upd env tb (r_ididxes r)) (r_temps r) (typed_beans t vs)" by simp
  with False nf sids show ?thesis by blast
qed

lemma resolve_inv_D:
  assumes "resolve_inv env tn tb t w n ids r"
  shows "\<forall>sid j. r_ididxes r sid = Some j \<longrightarrow> j < length ids \<and> pk_sid env (ids ! j) = Some sid"
  using assms unfolding resolve_inv_def by blast

lemma resolve_inv_D':
  assumes "resolve_inv env tn tb t w n ids r"
  shows "\<forall>sid j. r_ididxes r sid = Some j \<longrightarrow> pk_sid env (ids ! j) = Some sid"
  using assms unfolding resolve_inv_def by blast

text \<open>
  C2. In a cache-assisted \<open>find\<close> whose id list, cache look-ups and backfill have succeeded,
  with a nested find that returns only beans of the ids it was asked for: every filled
  slot of \<open>temps\<close> holds a bean whose own key is the id at that index, so the keys of the
  beans put into the destination are the ids of the filled slots in the order of the id
  list, and a slice receives exactly those beans in that order. The rows of the backfill,
  when their keys are distinct, give the same \<open>temps\<close> in whatever order they are
  returned. On the direct path into a slice the elements are appended in the order of the
  cursor's rows.
\<close>

theorem result_order:
  assumes prep: "prepare env s0 dest condiBean = Inr (s, sqlStr, args)"
      and path: "cache_path env s sqlStr"
      and tbl: "RefTable s = Some table"
      and ids: "resolveIDList env table (TableName s) (idsql env s sqlStr) args w = (Inr ids, w1)"
      and res: "resolveBeans env (TableName s) table (Elem (c_type dest)) 0 ids
                  (resolved0 (length ids)) w1 = (Inr r, w2)"
      and bf: "backfill env (TableName s) table (Elem (c_type dest)) r w2 = (Inr temps, w3)"
      and within: "\<forall>vs. nestedFind env (TableName s) (Elem (c_type dest)) (r_ides r) = Inr vs \<longrightarrow>
                     backfill_within env table (r_ididxes r) (typed_beans (Elem (c_type dest)) vs)"
  shows "slots_match env table ids temps
       \<and> map (bean_sid env table) (beans_of (zip ids temps))
           = map (\<lambda>kb. pk_sid env (fst kb)) (filled (zip ids temps))
       \<and> (KindOf (c_type dest) = Slice \<longrightarrow>
            find env s0 dest condiBean w =
              (None,
               dest\<lparr>c_slice := c_slice dest @
                  map (elem_of (Elem (c_type dest))) (beans_of (zip ids temps))\<rparr>,
               warn_no_hit (empty_slots (zip ids temps)) w3))
       \<and> (\<forall>vs vs' w'. r_ides r \<noteq> [] \<and>
             nestedFind env (TableName s) (Elem (c_type dest)) (r_ides r) = Inr vs \<and>
             distinct (map (bean_sid env table) (typed_beans (Elem (c_type dest)) vs)) \<and>
             mset vs' = mset vs \<longrightarrow>
             fst (placeBeans env (TableName s) table (r_ididxes r)
                    (typed_beans (Elem (c_type dest)) vs') (r_temps r) w') = Inr temps)
       \<and> (KindOf (c_type c) = Slice \<and> KindOf (elem_type c) = Struct \<and>
          queryRows env q a = Inr rows \<and> rows_columns rows = Inr fs \<and> rows_types rows = Inr tys \<and>
          length fs \<le> length tys \<and> ParseWithCache env (elem_type c) = Inr tb0 \<and>
          all_materialise env tb0 (elem_type c) (rows_data rows) \<and> rows_err rows = None \<longrightarrow>
            c_slice (fst (snd (noCacheFind env table0 c q a w0)))
              = c_slice c @ row_elems env tb0 (elem_type c) (KindOf (Elem (c_type c)) = Ptr)
                              (rows_data rows))
       \<and> (KindOf (c_type c) = Slice \<and> KindOf (elem_type c) \<noteq> Struct \<and> KindOf (elem_type c) \<noteq> Ptr \<and>
          queryRows env q a = Inr rows \<and> rows_columns rows = Inr fs \<and> rows_types rows = Inr tys \<and>
          all_scan_values env (elem_type c) (rows_data rows) \<longrightarrow>
            c_slice (fst (snd (noCacheFind env table0 c q a w0)))
              = c_slice c @ scan_elems env (elem_type c) (KindOf (Elem (c_type c)) = Ptr)
                              (rows_data rows))"
proof -
  let ?t = "Elem (c_type dest)"
  let ?tn = "TableName s"
  have inv: "resolve_inv env ?tn table ?t w1 (length ids) ids r"
    by (rule resolveBeans_inv[OF _ res]) simp
  note D = resolve_inv_D[OF inv]
  note D' = resolve_inv_D'[OF inv]
  have sm0: "slots_match env table ids (r_temps r)" by (rule resolve_inv_slots[OF inv])
  from backfill_temps[OF inv bf]
  have sm: "slots_match env table ids temps"
  proof
    assume "r_ides r = [] \<and> temps = r_temps r"
    with sm0 show ?thesis by simp
  next
    assume "\<exists>vs. r_ides r \<noteq> [] \<and> nestedFind env ?tn ?t (r_ides r) = Inr vs \<and>
               (\<forall>b\<in>set (typed_beans ?t vs). bean_sid env table b \<noteq> None) \<and>
               temps = foldl (place_upd env table (r_ididxes r)) (r_temps r) (typed_beans ?t vs)"
    then obtain vs where nf: "nestedFind env ?tn ?t (r_ides r) = Inr vs"
      and sids: "\<forall>b\<in>set (typed_beans ?t vs). bean_sid env table b \<noteq> None"
      and tm: "temps = foldl (place_upd env table (r_ididxes r)) (r_temps r) (typed_beans ?t vs)"
      by blast
    from within nf have wi: "backfill_within env table (r_ididxes r) (typed_beans ?t vs)" by blast
    show ?thesis unfolding tm using D sm0 wi sids by (rule slots_match_foldl)
  qed
  have keys: "map (bean_sid env table) (beans_of (zip ids temps))
           = map (\<lambda>kb. pk_sid env (fst kb)) (filled (zip ids temps))"
    by (rule slots_match_keys[OF sm])
  have sl: "KindOf (c_type dest) = Slice \<longrightarrow>
            find env s0 dest condiBean w =
              (None,
               dest\<lparr>c_slice := c_slice dest @ map (elem_of ?t) (beans_of (zip ids temps))\<rparr>,
               warn_no_hit (empty_slots (zip ids temps)) w3)"
    using find_into_slice(2)[OF prep path tbl ids res bf] by blast
  have perm: "\<forall>vs vs' w'. r_ides r \<noteq> [] \<and> nestedFind env ?tn ?t (r_ides r) = Inr vs \<and>
             distinct (map (bean_sid env table) (typed_beans ?t vs)) \<and> mset vs' = mset vs \<longrightarrow>
             fst (placeBeans env ?tn table (r_ididxes r) (typed_beans ?t vs') (r_temps r) w')
               = Inr temps"
  proof (intro allI impI)
    fix vs vs' w'
    assume a: "r_ides r \<noteq> [] \<and> nestedFind env ?tn ?t (r_ides r) = Inr vs \<and>
             distinct (map (bean_sid env table) (typed_beans ?t vs)) \<and> mset vs' = mset vs"
    then have ne: "r_ides r \<noteq> []" and nf: "nestedFind env ?tn ?t (r_ides r) = Inr vs"
      and dist: "distinct (map (bean_sid env table) (typed_beans ?t vs))"
      and m: "mset vs' = mset vs" by simp_all
    from backfill_temps[OF inv bf] ne nf
    have sids: "\<forall>b\<in>set (typed_beans ?t vs). bean_sid env table b \<noteq> None"
      and tm: "temps = foldl (place_upd env table (r_ididxes r)) (r_temps r) (typed_beans ?t vs)"
      by auto
    from within nf have wi: "backfill_within env table (r_ididxes r) (typed_beans ?t vs)" by blast
    have m': "mset (typed_beans ?t vs') = mset (typed_beans ?t vs)"
      using m by (simp add: typed_beans_def)
    then have "set (typed_beans ?t vs') = set (typed_beans ?t vs)" by (rule mset_eq_setD)
    with sids have sids': "\<forall>b\<in>set (typed_beans ?t vs'). bean_sid env table b \<noteq> None" by simp
    have d: "distinct (map (slot_index env table (r_ididxes r)) (typed_beans ?t vs))"
      using D' wi sids dist by (rule slot_index_distinct)
    show "fst (placeBeans env ?tn table (r_ididxes r) (typed_beans ?t vs') (r_temps r) w')
               = Inr temps"
      unfolding placeBeans_fold[OF sids'] tm foldl_place_perm[OF d m'] ..
  qed
  have d1: "KindOf (c_type c) = Slice \<and> KindOf (elem_type c) = Struct \<and>
          queryRows env q a = Inr rows \<and> rows_columns rows = Inr fs \<and> rows_types rows = Inr tys \<and>
          length fs \<le> length tys \<and> ParseWithCache env (elem_type c) = Inr tb0 \<and>
          all_materialise env tb0 (elem_type c) (rows_data rows) \<and> rows_err rows = None \<longrightarrow>
            c_slice (fst (snd (noCacheFind env table0 c q a w0)))
              = c_slice c @ row_elems env tb0 (elem_type c) (KindOf (Elem (c_type c)) = Ptr)
                              (rows_data rows)"
  proof
    assume h: "KindOf (c_type c) = Slice \<and> KindOf (elem_type c) = Struct \<and>
          queryRows env q a = Inr rows \<and> rows_columns rows = Inr fs \<and> rows_types rows = Inr tys \<and>
          length fs \<le> length tys \<and> ParseWithCache env (elem_type c) = Inr tb0 \<and>
          all_materialise env tb0 (elem_type c) (rows_data rows) \<and> rows_err rows = None"
    have "noCacheFind env table0 c q a w0 =
           (executeProcessors env,
            c\<lparr>c_slice := c_slice c @
                 row_elems env tb0 (elem_type c) (KindOf (Elem (c_type c)) = Ptr) (rows_data rows)\<rparr>,
            emit (QueryRows q a) w0)"
      by (rule noCacheFind_slice_struct) (use h in blast)+
    then show "c_slice (fst (snd (noCacheFind env table0 c q a w0)))
              = c_slice c @ row_elems env tb0 (elem_type c) (KindOf (Elem (c_type c)) = Ptr)
                              (rows_data rows)" by simp
  qed
  have d2: "KindOf (c_type c) = Slice \<and> KindOf (elem_type c) \<noteq> Struct \<and> KindOf (elem_type c) \<noteq> Ptr \<and>
          queryRows env q a = Inr rows \<and> rows_columns rows = Inr fs \<and> rows_types rows = Inr tys \<and>
          all_scan_values env (elem_type c) (rows_data rows) \<longrightarrow>
            c_slice (fst (snd (noCacheFind env table0 c q a w0)))
              = c_slice c @ scan_elems env (elem_type c) (KindOf (Elem (c_type c)) = Ptr)
                              (rows_data rows)"
  proof
    assume h: "KindOf (c_type c) = Slice \<and> KindOf (elem_type c) \<noteq> Struct \<and> KindOf (elem_type c) \<noteq> Ptr \<and>
          queryRows env q a = Inr rows \<and> rows_columns rows = Inr fs \<and> rows_types rows = Inr tys \<and>
          all_scan_values env (elem_type c) (rows_data rows)"
    have "noCacheFind env table0 c q a w0 =
           (rows_err rows,
            c\<lparr>c_slice := c_slice c @
                 scan_elems env (elem_type c) (KindOf (Elem (c_type c)) = Ptr) (rows_data rows)\<rparr>,
            emit (QueryRows q a) w0)"
      by (rule noCacheFind_slice_scalar) (use h in blast)+
    then show "c_slice (fst (snd (noCacheFind env table0 c q a w0)))
              = c_slice c @ scan_elems env (elem_type c) (KindOf (Elem (c_type c)) = Ptr)
                              (rows_data rows)" by simp
  qed
  from sm keys sl perm d1 d2 show ?thesis by blast
qed

theorem result_order_witness:
  "find (demo_env demo_table demo_db) demo_session (demo_slice (StructT ''User'')) []
     (demo_world\<lparr>ids_cache := [(''user'', ''SELECT id  FROM user'', []) \<mapsto>
                                  [[StrV ''2''], [StrV ''1'']]]\<rparr>)
   = (None,
      (demo_slice (StructT ''User''))
        \<lparr>c_slice := [ValOf (demo_bean (StructT ''User'') ''2'' ''b''),
                     ValOf (demo_bean (StructT ''User'') ''1'' ''a'')]\<rparr>,
      PutBean ''user'' ''2,'' (demo_bean (StructT ''User'') ''2'' ''b'')
        (PutBean ''user'' ''1,'' (demo_bean (StructT ''User'') ''1'' ''a'')
          (emit (Backfill ''user'' [[StrV ''2''], [StrV ''1'']])
            (demo_world\<lparr>ids_cache := [(''user'', ''SELECT id  FROM user'', []) \<mapsto>
                                  [[StrV ''2''], [StrV ''1'']]]\<rparr>))))
   \<and> c_slice (fst (snd (noCacheFind (demo_env demo_table demo_db) (Some demo_table)
        (demo_slice (StructT ''User'')) ''SELECT * FROM user'' [] demo_world)))
     = [ValOf (demo_bean (StructT ''User'') ''1'' ''a''),
        ValOf (demo_bean (StructT ''User'') ''2'' ''b'')]"
proof -
  let ?ids = "[[StrV ''2''], [StrV ''1'']]"
  let ?w = "demo_world\<lparr>ids_cache := [(''user'', ''SELECT id  FROM user'', []) \<mapsto> ?ids]\<rparr>"
  let ?env = "demo_env demo_table demo_db"
  let ?c = "demo_slice (StructT ''User'')"
  let ?b1 = "demo_bean (StructT ''User'') ''1'' ''a''"
  let ?b2 = "demo_bean (StructT ''User'') ''2'' ''b''"
  let ?r = "\<lparr>r_ides = ?ids, r_ididxes = [''2,'' \<mapsto> 0, ''1,'' \<mapsto> Suc 0],
            r_temps = [None, None]\<rparr>"
  let ?w3 = "PutBean ''user'' ''2,'' ?b2 (PutBean ''user'' ''1,'' ?b1
               (emit (Backfill ''user'' ?ids) ?w))"
  let ?rows = "\<lparr>rows_columns = Inr [''id'', ''name''], rows_types = Inr [''INT'', ''TEXT''],
          rows_data = demo_db, rows_err = None\<rparr>"
  have ids: "resolveIDList ?env demo_table (TableName demo_find_session)
               (idsql ?env demo_find_session ''SELECT * FROM user'') [] ?w = (Inr ?ids, ?w)"
    unfolding demo_tn demo_idsql by (rule demo_resolveIDList_hit) simp
  have res: "resolveBeans ?env (TableName demo_find_session) demo_table
               (Elem (c_type ?c)) 0 ?ids (resolved0 (length ?ids)) ?w = (Inr ?r, ?w)"
    unfolding demo_tn demo_t
    by (simp add: resolveOne_def resolved0_def demo_env_def demo_pk_string_def GetBean_def
        demo_world_def isHit_def)
  have nf: "nestedFind ?env ''user'' (StructT ''User'') ?ids
            = Inr [demo_fields [StrV ''1'', StrV ''a''], demo_fields [StrV ''2'', StrV ''b'']]"
    by (simp add: demo_env_def demo_db_def demo_table_def demo_fields_def demo_pk_string_def)
  have bf: "backfill ?env (TableName demo_find_session) demo_table (Elem (c_type ?c)) ?r ?w
            = (Inr [Some ?b2, Some ?b1], ?w3)"
    unfolding demo_tn demo_t
    by (simp add: backfill_def placeOne_def demo_env_def demo_db_def demo_table_def
        demo_fields_def demo_bean_def demo_pk_string_def Let_def)
  have within: "\<forall>vs. nestedFind ?env (TableName demo_find_session) (Elem (c_type ?c)) (r_ides ?r)
                        = Inr vs \<longrightarrow>
                     backfill_within ?env demo_table (r_ididxes ?r) (typed_beans (Elem (c_type ?c)) vs)"
    unfolding demo_tn demo_t
    by (simp add: nf)
       (simp add: backfill_within_def typed_beans_def bean_sid_def pk_sid_def demo_env_def
        demo_table_def demo_fields_def demo_pk_string_def)
  have d: "KindOf (c_type ?c) = Slice \<and> KindOf (elem_type ?c) = Struct \<and>
          queryRows ?env ''SELECT * FROM user'' [] = Inr ?rows \<and>
          rows_columns ?rows = Inr [''id'', ''name''] \<and> rows_types ?rows = Inr [''INT'', ''TEXT''] \<and>
          length [''id'', ''name''] \<le> length [''INT'', ''TEXT''] \<and>
          ParseWithCache ?env (elem_type ?c) = Inr demo_table \<and>
          all_materialise ?env demo_table (elem_type ?c) (rows_data ?rows) \<and> rows_err ?rows = None"
    by (simp add: demo_kind elem_type_def demo_t demo_queryRows demo_all_materialise)
       (simp add: demo_env_def)
  note t = result_order[OF demo_prepare_plain demo_cache_path demo_tbl ids res bf within,
      where c = ?c and q = "''SELECT * FROM user''" and a = "[]" and rows = ?rows
        and fs = "[''id'', ''name'']" and tys = "[''INT'', ''TEXT'']" and ?tb0.0 = demo_table
        and ?table0.0 = "Some demo_table" and ?w0.0 = demo_world]
  have bs: "beans_of (zip ?ids [Some ?b2, Some ?b1]) = [?b2, ?b1]"
    by (simp add: beans_of_def List.map_filter_simps)
  have es: "empty_slots (zip ?ids [Some ?b2, Some ?b1]) = 0"
    by (simp add: empty_slots_def)
  have re: "row_elems ?env demo_table (elem_type ?c) (KindOf (Elem (c_type ?c)) = Ptr) (rows_data ?rows)
            = [ValOf ?b1, ValOf ?b2]"
    by (simp add: row_elems_def elem_type_def demo_t demo_db_def demo_env_def demo_fields_def
        demo_bean_def)
  from t demo_kind[of "StructT ''User''"]
  have 1: "find ?env demo_session ?c [] ?w =
              (None, ?c\<lparr>c_slice := c_slice ?c @
                  map (elem_of (Elem (c_type ?c))) (beans_of (zip ?ids [Some ?b2, Some ?b1]))\<rparr>,
               warn_no_hit (empty_slots (zip ?ids [Some ?b2, Some ?b1])) ?w3)"
    by blast
  from t d
  have 2: "c_slice (fst (snd (noCacheFind ?env (Some demo_table) ?c ''SELECT * FROM user'' []
              demo_world)))
           = c_slice ?c @ row_elems ?env demo_table (elem_type ?c) (KindOf (Elem (c_type ?c)) = Ptr)
                              (rows_data ?rows)"
    by blast
  from 1 2 show ?thesis
    unfolding bs es re
    by (simp add: demo_t elem_of_def warn_no_hit_def demo_slice_def)
qed

section \<open>Repeating a cache-assisted find\<close>

lemma typed_beans_map: "typed_beans t vs = map (typed_bean t) vs"
  by (simp add: typed_beans_def typed_bean_def)

lemma typed_bean_isHit: "isHit t (Some (typed_bean t fs))"
  by (simp add: isHit_def typed_bean_def Let_def)

lemma resolveOne_succeeds:
  assumes ps: "pk_sid env pk = Some sid"
      and ok: "\<forall>b. hit_at env tn t w pk = Some b \<longrightarrow> bean_sid env tb b = Some sid"
  shows "\<exists>r'. resolveOne env tn tb t idx pk r w = (Inr r', w)"
proof -
  from ps have p: "PKToString env pk = Inr sid"
    by (cases "PKToString env pk") (simp_all add: pk_sid_def)
  show ?thesis
  proof (cases "isHit t (GetBean w tn sid)")
    case False
    with p show ?thesis by (simp add: resolveOne_def)
  next
    case True
    then obtain b where b: "GetBean w tn sid = Some b"
      by (cases "GetBean w tn sid") (simp_all add: isHit_None)
    with True ps have "hit_at env tn t w pk = Some b" by (simp add: hit_at_def hit_of_def)
    with ok have bs: "bean_sid env tb b = Some sid" by blast
    then obtain pk' where pk': "IDOfV env tb b = Inr pk'"
      by (cases "IDOfV env tb b") (simp_all add: bean_sid_def)
    with bs have "pk_sid env pk' = Some sid" by (simp add: bean_sid_def)
    then have x: "PKToString env pk' = Inr sid"
      by (cases "PKToString env pk'") (simp_all add: pk_sid_def)
    from p True b pk' x show ?thesis by (simp add: resolveOne_def)
  qed
qed

lemma resolveBeans_succeeds:
  "length xs \<le> n \<Longrightarrow>
   \<forall>j<length xs. pk_sid env (xs ! j) \<noteq> None \<and>
      (\<forall>b. hit_at env tn t w (xs ! j) = Some b \<longrightarrow> bean_sid env tb b = pk_sid env (xs ! j)) \<Longrightarrow>
   \<exists>r. resolveBeans env tn tb t 0 xs (resolved0 n) w = (Inr r, w)"
proof (induction xs rule: rev_induct)
  case Nil
  then show ?case by simp
next
  case (snoc x xs)
  from snoc.prems(1) have l: "length xs \<le> n" by simp
  have pre: "\<forall>j<length xs. pk_sid env (xs ! j) \<noteq> None \<and>
      (\<forall>b. hit_at env tn t w (xs ! j) = Some b \<longrightarrow> bean_sid env tb b = pk_sid env (xs ! j))"
  proof (intro allI impI)
    fix j assume j: "j < length xs"
    then have "j < length (xs @ [x])" by simp
    from snoc.prems(2)[rule_format, OF this] j
    show "pk_sid env (xs ! j) \<noteq> None \<and>
      (\<forall>b. hit_at env tn t w (xs ! j) = Some b \<longrightarrow> bean_sid env tb b = pk_sid env (xs ! j))"
      by (simp add: nth_append)
  qed
  from snoc.IH[OF l pre] obtain r1 where r1: "resolveBeans env tn tb t 0 xs (resolved0 n) w = (Inr r1, w)"
    by blast
  have "length xs < length (xs @ [x])" by simp
  from snoc.prems(2)[rule_format, OF this]
  have lastok: "pk_sid env x \<noteq> None \<and>
      (\<forall>b. hit_at env tn t w x = Some b \<longrightarrow> bean_sid env tb b = pk_sid env x)" by simp
  then obtain sid where ps: "pk_sid env x = Some sid" by auto
  with lastok have ok: "\<forall>b. hit_at env tn t w x = Some b \<longrightarrow> bean_sid env tb b = Some sid" by simp
  from resolveOne_succeeds[OF ps ok, of "length xs" r1] obtain r' where
    o: "resolveOne env tn tb t (length xs) x r1 w = (Inr r', w)" by blast
  have "resolveBeans env tn tb t 0 (xs @ [x]) (resolved0 n) w = (Inr r', w)"
    unfolding resolveBeans_append r1 using o by simp
  then show ?case by blast
qed

lemma find_app:
  "List.find P (xs @ ys) = (case List.find P xs of Some x \<Rightarrow> Some x | None \<Rightarrow> List.find P ys)"
  by (induction xs) simp_all

lemma find_SomeD: "List.find P xs = Some x \<Longrightarrow> x \<in> set xs \<and> P x"
  by (induction xs) (simp_all split: if_splits)

lemma placeBeans_snd_fold:
  "\<forall>b\<in>set bs. bean_sid env tb b \<noteq> None \<Longrightarrow>
   ids_cache (snd (placeBeans env tn tb ix bs temps w)) = ids_cache w \<and>
   events (snd (placeBeans env tn tb ix bs temps w)) = events w \<and>
   (\<forall>sid. GetBean (snd (placeBeans env tn tb ix bs temps w)) tn sid =
      (case List.find (\<lambda>b. bean_sid env tb b = Some sid) (rev bs) of
         Some b \<Rightarrow> Some b
       | None \<Rightarrow> GetBean w tn sid))"
proof (induction bs arbitrary: temps w)
  case Nil
  then show ?case by simp
next
  case (Cons b bs)
  from Cons.prems obtain sid0 where s: "bean_sid env tb b = Some sid0" by auto
  from Cons.prems have r: "\<forall>b\<in>set bs. bean_sid env tb b \<noteq> None" by simp
  let ?w1 = "PutBean tn sid0 b w"
  let ?t1 = "place_upd env tb ix temps b"
  have step: "placeBeans env tn tb ix (b # bs) temps w = placeBeans env tn tb ix bs ?t1 ?w1"
    using placeOne_ok[OF s, of tn ix temps w] by simp
  note ih = Cons.IH[OF r, of ?t1 ?w1]
  have g: "GetBean ?w1 tn sid = (if sid = sid0 then Some b else GetBean w tn sid)" for sid
    by (simp add: GetBean_def PutBean_def)
  have f: "List.find (\<lambda>b. bean_sid env tb b = Some sid) (rev (b # bs)) =
           (case List.find (\<lambda>b. bean_sid env tb b = Some sid) (rev bs) of
              Some b' \<Rightarrow> Some b'
            | None \<Rightarrow> if sid = sid0 then Some b else None)" for sid
    using s by (simp add: find_app split: option.splits)
  show ?case
    unfolding step
  proof (intro conjI allI)
    show "ids_cache (snd (placeBeans env tn tb ix bs ?t1 ?w1)) = ids_cache w"
      using ih by (simp add: PutBean_def)
    show "events (snd (placeBeans env tn tb ix bs ?t1 ?w1)) = events w"
      using ih by (simp add: PutBean_def)
    fix sid
    show "GetBean (snd (placeBeans env tn tb ix bs ?t1 ?w1)) tn sid =
      (case List.find (\<lambda>b. bean_sid env tb b = Some sid) (rev (b # bs)) of
         Some b \<Rightarrow> Some b
       | None \<Rightarrow> GetBean w tn sid)"
      using ih[THEN conjunct2, THEN conjunct2, rule_format, of sid]
      unfolding f g by (simp split: option.splits)
  qed
qed

lemma backfilled_sids:
  assumes db: "answers_from env tb tn t rows"
  shows "\<forall>b\<in>set (backfilled env tb t ides rows). bean_sid env tb b \<noteq> None"
  using db unfolding answers_from_def backfilled_def list_all_iff by auto

lemma backfilled_distinct:
  assumes db: "answers_from env tb tn t rows"
  shows "distinct (map (bean_sid env tb) (backfilled env tb t ides rows))"
proof -
  from db have d: "distinct (map (\<lambda>fs. bean_sid env tb (typed_bean t fs)) rows)"
    unfolding answers_from_def by blast
  have "map (bean_sid env tb) (backfilled env tb t ides rows) =
        filter (\<lambda>k. k \<in> pk_sid env ` set ides) (map (\<lambda>fs. bean_sid env tb (typed_bean t fs)) rows)"
    unfolding backfilled_def by (simp add: filter_map comp_def)
  with d show ?thesis by simp
qed

lemma backfill_world:
  assumes db: "answers_from env tb tn t rows"
      and bf: "backfill env tn tb t r w = (Inr temps, w3)"
  shows "temps = foldl (place_upd env tb (r_ididxes r)) (r_temps r) (backfilled env tb t (r_ides r) rows)"
    and "ids_cache w3 = ids_cache w"
    and "filter is_id_query (events w3) = filter is_id_query (events w)"
    and "\<forall>sid. GetBean w3 tn sid =
           (case List.find (\<lambda>b. bean_sid env tb b = Some sid) (rev (backfilled env tb t (r_ides r) rows)) of
              Some b \<Rightarrow> Some b
            | None \<Rightarrow> GetBean w tn sid)"
proof -
  let ?bs = "backfilled env tb t (r_ides r) rows"
  have all: "temps = foldl (place_upd env tb (r_ididxes r)) (r_temps r) ?bs \<and>
        ids_cache w3 = ids_cache w \<and>
        filter is_id_query (events w3) = filter is_id_query (events w) \<and>
        (\<forall>sid. GetBean w3 tn sid =
           (case List.find (\<lambda>b. bean_sid env tb b = Some sid) (rev ?bs) of
              Some b \<Rightarrow> Some b
            | None \<Rightarrow> GetBean w tn sid))"
  proof (cases "r_ides r = []")
    case True
    then have e: "?bs = []" by (simp add: backfilled_def)
    from True bf have "temps = r_temps r" "w3 = w" by (simp_all add: backfill_def)
    then show ?thesis unfolding e by simp
  next
    case False
    then have l: "length (r_ides r) > 0" by simp
    let ?w1 = "emit (Backfill tn (r_ides r)) w"
    from db have nf: "nestedFind env tn t (r_ides r) =
        Inr (filter (\<lambda>fs. bean_sid env tb (typed_bean t fs) \<in> pk_sid env ` set (r_ides r)) rows)"
      unfolding answers_from_def by blast
    have tb: "(\<lambda>fs. \<lparr>bean_type = (if KindOf t = Ptr then Elem t else t), bean_fields = fs\<rparr>) = typed_bean t"
      by (rule ext) (simp add: typed_bean_def)
    from bf l have p: "placeBeans env tn tb (r_ididxes r) ?bs (r_temps r) ?w1 = (Inr temps, w3)"
      unfolding backfill_def Let_def nf tb backfilled_def by simp
    note sids = backfilled_sids[OF db, of "r_ides r"]
    from placeBeans_fold[OF sids, of tn "r_ididxes r" "r_temps r" ?w1] p
    have 1: "temps = foldl (place_upd env tb (r_ididxes r)) (r_temps r) ?bs" by simp
    from placeBeans_snd_fold[OF sids, of tn "r_ididxes r" "r_temps r" ?w1] p
    have 2: "ids_cache w3 = ids_cache ?w1" and 3: "events w3 = events ?w1"
      and 4: "\<forall>sid. GetBean w3 tn sid =
           (case List.find (\<lambda>b. bean_sid env tb b = Some sid) (rev ?bs) of
              Some b \<Rightarrow> Some b
            | None \<Rightarrow> GetBean ?w1 tn sid)"
      by simp_all
    have g: "GetBean ?w1 tn sid = GetBean w tn sid" for sid
      by (simp add: GetBean_def emit_def)
    from 1 2 3 4 show ?thesis unfolding g by (simp add: emit_def)
  qed
  from all show "temps = foldl (place_upd env tb (r_ididxes r)) (r_temps r) ?bs" by blast
  from all show "ids_cache w3 = ids_cache w" by blast
  from all show "filter is_id_query (events w3) = filter is_id_query (events w)" by blast
  from all show "\<forall>sid. GetBean w3 tn sid =
           (case List.find (\<lambda>b. bean_sid env tb b = Some sid) (rev ?bs) of
              Some b \<Rightarrow> Some b
            | None \<Rightarrow> GetBean w tn sid)" by blast
qed

lemma backfilled_slot:
  assumes inv: "resolve_inv env tn tb t w (length ids) ids r"
      and dist: "distinct (map (pk_sid env) ids)"
      and j: "j < length ids"
      and sj: "pk_sid env (ids ! j) = Some sid"
      and b: "b \<in> set (backfilled env tb t (r_ides r) rows)"
  shows "slot_index env tb (r_ididxes r) b = j \<longleftrightarrow> bean_sid env tb b = Some sid"
proof -
  from b obtain pk where pk: "pk \<in> set (r_ides r)" and bp: "bean_sid env tb b = pk_sid env pk"
    unfolding backfilled_def by auto
  from inv have ri: "r_ides r = filter (\<lambda>pk. hit_at env tn t w pk = None) ids"
    unfolding resolve_inv_def by blast
  from pk ri have "pk \<in> set ids" and h: "hit_at env tn t w pk = None" by simp_all
  then obtain i where i: "i < length ids" and pi: "ids ! i = pk" by (auto simp: in_set_conv_nth)
  from inv have c5: "\<forall>j<length ids. hit_at env tn t w (ids ! j) = None \<longrightarrow>
          (\<exists>sid k. pk_sid env (ids ! j) = Some sid \<and> r_ididxes r sid = Some k)"
    unfolding resolve_inv_def by blast
  from c5 i h pi obtain s k where s: "pk_sid env pk = Some s" and k: "r_ididxes r s = Some k"
    by auto
  from resolve_inv_D[OF inv] k have kl: "k < length ids" and ks: "pk_sid env (ids ! k) = Some s"
    by blast+
  from bp s have bs: "bean_sid env tb b = Some s" by simp
  from bs k have si: "slot_index env tb (r_ididxes r) b = k" by (simp add: slot_index_def)
  have "k = j \<longleftrightarrow> s = sid"
  proof
    assume "k = j"
    with ks sj show "s = sid" by simp
  next
    assume "s = sid"
    with ks sj have e: "pk_sid env (ids ! k) = pk_sid env (ids ! j)" by simp
    from dist kl j have "k \<noteq> j \<longrightarrow> pk_sid env (ids ! k) \<noteq> pk_sid env (ids ! j)"
      unfolding distinct_conv_nth by simp
    with e show "k = j" by blast
  qed
  with si bs show ?thesis by simp
qed

lemma hit_after_backfill:
  assumes inv: "resolve_inv env tn tb t w (length ids) ids r"
      and dist: "distinct (map (pk_sid env) ids)"
      and T: "temps = foldl (place_upd env tb (r_ididxes r)) (r_temps r) (backfilled env tb t (r_ides r) rows)"
      and G: "\<forall>sid. GetBean w3 tn sid =
           (case List.find (\<lambda>b. bean_sid env tb b = Some sid) (rev (backfilled env tb t (r_ides r) rows)) of
              Some b \<Rightarrow> Some b
            | None \<Rightarrow> GetBean w tn sid)"
      and j: "j < length ids"
  shows "hit_at env tn t w3 (ids ! j) = temps ! j"
    and "pk_sid env (ids ! j) \<noteq> None"
    and "\<forall>b. temps ! j = Some b \<longrightarrow> bean_sid env tb b = pk_sid env (ids ! j)"
    and "temps ! j = None \<longrightarrow>
           hit_at env tn t w (ids ! j) = None \<and>
           (\<forall>b\<in>set (backfilled env tb t (r_ides r) rows). bean_sid env tb b \<noteq> pk_sid env (ids ! j))"
proof -
  let ?bs = "backfilled env tb t (r_ides r) rows"
  from inv j have c6: "pk_sid env (ids ! j) \<noteq> None \<and>
          (\<forall>b. hit_at env tn t w (ids ! j) = Some b \<longrightarrow> bean_sid env tb b = pk_sid env (ids ! j))"
    unfolding resolve_inv_def by blast
  then obtain sid where sj: "pk_sid env (ids ! j) = Some sid" by auto
  from inv j have lt: "length (r_temps r) = length ids"
    and rt: "r_temps r ! j = hit_at env tn t w (ids ! j)"
    unfolding resolve_inv_def by simp_all
  have fe: "List.find (\<lambda>b. slot_index env tb (r_ididxes r) b = j) (rev ?bs) =
            List.find (\<lambda>b. bean_sid env tb b = Some sid) (rev ?bs)"
  proof (rule find_cong[OF refl])
    fix b assume "b \<in> set (rev ?bs)"
    then have "b \<in> set ?bs" by simp
    from backfilled_slot[OF inv dist j sj this]
    show "(slot_index env tb (r_ididxes r) b = j) = (bean_sid env tb b = Some sid)" .
  qed
  have tj: "temps ! j = (case List.find (\<lambda>b. bean_sid env tb b = Some sid) (rev ?bs) of
                Some b \<Rightarrow> Some b | None \<Rightarrow> hit_at env tn t w (ids ! j))"
    unfolding T using foldl_place_nth[of j "r_temps r" env tb "r_ididxes r" ?bs] j lt fe rt
    by (simp split: option.split)
  have hj: "hit_at env tn t w3 (ids ! j) =
            hit_of t (case List.find (\<lambda>b. bean_sid env tb b = Some sid) (rev ?bs) of
                Some b \<Rightarrow> Some b | None \<Rightarrow> GetBean w tn sid)"
    using sj G by (simp add: hit_at_def)
  have hw: "hit_at env tn t w (ids ! j) = hit_of t (GetBean w tn sid)"
    using sj by (simp add: hit_at_def)
  show "pk_sid env (ids ! j) \<noteq> None" using sj by simp
  show "hit_at env tn t w3 (ids ! j) = temps ! j"
  proof (cases "List.find (\<lambda>b. bean_sid env tb b = Some sid) (rev ?bs)")
    case None
    with tj hj hw show ?thesis by simp
  next
    case (Some b)
    from find_SomeD[OF this] have "b \<in> set ?bs" by simp
    then obtain fs where "b = typed_bean t fs" unfolding backfilled_def by auto
    then have "hit_of t (Some b) = Some b" using typed_bean_isHit[of t fs] by (simp add: hit_of_def)
    with Some tj hj show ?thesis by simp
  qed
  show "\<forall>b. temps ! j = Some b \<longrightarrow> bean_sid env tb b = pk_sid env (ids ! j)"
  proof (intro allI impI)
    fix b assume a: "temps ! j = Some b"
    show "bean_sid env tb b = pk_sid env (ids ! j)"
    proof (cases "List.find (\<lambda>b. bean_sid env tb b = Some sid) (rev ?bs)")
      case None
      with tj a have "hit_at env tn t w (ids ! j) = Some b" by simp
      with c6 show ?thesis by blast
    next
      case (Some b')
      with tj a have "b' = b" by simp
      with find_SomeD[OF Some] have "bean_sid env tb b = Some sid" by simp
      with sj show ?thesis by simp
    qed
  qed
  show "temps ! j = None \<longrightarrow>
           hit_at env tn t w (ids ! j) = None \<and>
           (\<forall>b\<in>set ?bs. bean_sid env tb b \<noteq> pk_sid env (ids ! j))"
  proof
    assume a: "temps ! j = None"
    with tj have n: "List.find (\<lambda>b. bean_sid env tb b = Some sid) (rev ?bs) = None"
      by (cases "List.find (\<lambda>b. bean_sid env tb b = Some sid) (rev ?bs)") simp_all
    with tj a have h: "hit_at env tn t w (ids ! j) = None" by simp
    from n have "\<forall>b\<in>set ?bs. bean_sid env tb b \<noteq> Some sid"
      by (simp add: find_None_iff)
    with h sj show "hit_at env tn t w (ids ! j) = None \<and>
           (\<forall>b\<in>set ?bs. bean_sid env tb b \<noteq> pk_sid env (ids ! j))" by simp
  qed
qed

lemma composeResult_caches:
  "ids_cache (snd (snd (composeResult env t kts c w))) = ids_cache w \<and>
   bean_cache (snd (snd (composeResult env t kts c w))) = bean_cache w \<and>
   filter is_id_query (events (snd (snd (composeResult env t kts c w)))) =
     filter is_id_query (events w)"
proof (induction env t kts c w rule: composeResult.induct)
  case (1 env t sliceValue w)
  then show ?case by simp
next
  case (2 env t key rest sliceValue w)
  then show ?case by (simp add: emit_def)
next
  case (3 env t key bean rest sliceValue w)
  show ?case
  proof (cases "composeOne env t key bean sliceValue")
    case (Inl e)
    then show ?thesis by simp
  next
    case (Inr c)
    with "3.IH"[OF Inr] show ?thesis by simp
  qed
qed

lemma composeResult_same:
  "fst (composeResult env t kts c w) = fst (composeResult env t kts c w') \<and>
   fst (snd (composeResult env t kts c w)) = fst (snd (composeResult env t kts c w'))"
  using composeResult_filled[of env t kts c w w] composeResult_filled[of env t kts c w' w]
  by simp

lemma resolveIDList_cached:
  assumes "resolveIDList env tb tn q a w = (Inr ids, w1)"
  shows "GetCacheSql w1 tn q a = Some ids" and "bean_cache w1 = bean_cache w"
  using assms
  by (auto simp: resolveIDList_def GetCacheSql_def PutCacheSql_def emit_def Let_def
      split: option.splits sum.splits)

lemma resolveIDList_served:
  assumes "GetCacheSql w tn q a = Some ids"
  shows "resolveIDList env tb tn q a w = (Inr ids, w)"
  using assms by (simp add: resolveIDList_def)

lemma hit_at_bean_cache:
  "bean_cache w = bean_cache w' \<Longrightarrow> hit_at env tn t w pk = hit_at env tn t w' pk"
  by (simp add: hit_at_def GetBean_def split: option.split)

lemma backfill_succeeds:
  assumes db: "answers_from env tb tn t rows"
  shows "\<exists>temps w3. backfill env tn tb t r w = (Inr temps, w3)"
proof (cases "r_ides r = []")
  case True
  then show ?thesis by (simp add: backfill_def)
next
  case False
  let ?w1 = "emit (Backfill tn (r_ides r)) w"
  let ?bs = "backfilled env tb t (r_ides r) rows"
  from db have nf: "nestedFind env tn t (r_ides r) =
      Inr (filter (\<lambda>fs. bean_sid env tb (typed_bean t fs) \<in> pk_sid env ` set (r_ides r)) rows)"
    unfolding answers_from_def by blast
  have tb: "(\<lambda>fs. \<lparr>bean_type = (if KindOf t = Ptr then Elem t else t), bean_fields = fs\<rparr>) = typed_bean t"
    by (rule ext) (simp add: typed_bean_def)
  from False have e: "backfill env tn tb t r w = placeBeans env tn tb (r_ididxes r) ?bs (r_temps r) ?w1"
    unfolding backfill_def Let_def nf tb backfilled_def by simp
  note sids = backfilled_sids[OF db, of "r_ides r"]
  from placeBeans_fold[OF sids, of tn "r_ididxes r" "r_temps r" ?w1]
  show ?thesis unfolding e
    by (cases "placeBeans env tn tb (r_ididxes r) ?bs (r_temps r) ?w1") simp
qed

lemma second_backfill_empty:
  assumes inv: "resolve_inv env tn tb t w1 (length ids) ids r"
      and dist: "distinct (map (pk_sid env) ids)"
      and T: "temps = foldl (place_upd env tb (r_ididxes r)) (r_temps r) (backfilled env tb t (r_ides r) rows)"
      and G: "\<forall>sid. GetBean w3 tn sid =
           (case List.find (\<lambda>b. bean_sid env tb b = Some sid) (rev (backfilled env tb t (r_ides r) rows)) of
              Some b \<Rightarrow> Some b
            | None \<Rightarrow> GetBean w1 tn sid)"
  shows "backfilled env tb t (filter (\<lambda>pk. hit_at env tn t w3 pk = None) ids) rows = []"
proof -
  have "bean_sid env tb (typed_bean t fs) \<notin> pk_sid env ` set (filter (\<lambda>pk. hit_at env tn t w3 pk = None) ids)"
    if fs: "fs \<in> set rows" for fs
  proof
    assume "bean_sid env tb (typed_bean t fs) \<in> pk_sid env ` set (filter (\<lambda>pk. hit_at env tn t w3 pk = None) ids)"
    then obtain pk where pk: "pk \<in> set ids" and h3: "hit_at env tn t w3 pk = None"
      and k: "bean_sid env tb (typed_bean t fs) = pk_sid env pk" by auto
    from pk obtain j where j: "j < length ids" and pj: "ids ! j = pk" by (auto simp: in_set_conv_nth)
    from hit_after_backfill(1)[OF inv dist T G j] h3 pj have tj: "temps ! j = None" by simp
    from hit_after_backfill(4)[OF inv dist T G j] tj pj
    have h1: "hit_at env tn t w1 pk = None"
      and no: "\<forall>b\<in>set (backfilled env tb t (r_ides r) rows). bean_sid env tb b \<noteq> pk_sid env pk"
      by simp_all
    from inv have ri: "r_ides r = filter (\<lambda>pk. hit_at env tn t w1 pk = None) ids"
      unfolding resolve_inv_def by blast
    from pk h1 ri have "pk \<in> set (r_ides r)" by simp
    with k fs have "typed_bean t fs \<in> set (backfilled env tb t (r_ides r) rows)"
      unfolding backfilled_def by auto
    with no k show False by blast
  qed
  then show ?thesis unfolding backfilled_def by (simp add: filter_empty_conv)
qed

lemma second_cacheFind:
  assumes inv: "resolve_inv env tn tb t w1 (length ids) ids r"
      and dist: "distinct (map (pk_sid env) ids)"
      and db: "answers_from env tb tn t rows"
      and bf: "backfill env tn tb t r w1 = (Inr temps, w3)"
      and bc: "bean_cache w' = bean_cache w3"
  shows "\<exists>r2 w3'. resolveBeans env tn tb t 0 ids (resolved0 (length ids)) w' = (Inr r2, w') \<and>
           backfill env tn tb t r2 w' = (Inr temps, w3') \<and>
           ids_cache w3' = ids_cache w' \<and>
           filter is_id_query (events w3') = filter is_id_query (events w')"
proof -
  note T = backfill_world(1)[OF db bf]
  note G = backfill_world(4)[OF db bf]
  have h: "hit_at env tn t w' (ids ! j) = temps ! j" if "j < length ids" for j
    using hit_after_backfill(1)[OF inv dist T G that] hit_at_bean_cache[OF bc, of env tn t "ids ! j"]
    by simp
  have pre: "\<forall>j<length ids. pk_sid env (ids ! j) \<noteq> None \<and>
      (\<forall>b. hit_at env tn t w' (ids ! j) = Some b \<longrightarrow> bean_sid env tb b = pk_sid env (ids ! j))"
  proof (intro allI impI)
    fix j assume j: "j < length ids"
    from hit_after_backfill(2)[OF inv dist T G j] hit_after_backfill(3)[OF inv dist T G j] h[OF j]
    show "pk_sid env (ids ! j) \<noteq> None \<and>
      (\<forall>b. hit_at env tn t w' (ids ! j) = Some b \<longrightarrow> bean_sid env tb b = pk_sid env (ids ! j))"
      by simp
  qed
  from resolveBeans_succeeds[OF le_refl pre] obtain r2 where
    res2: "resolveBeans env tn tb t 0 ids (resolved0 (length ids)) w' = (Inr r2, w')" by blast
  from resolveBeans_inv[OF le_refl res2] have inv2: "resolve_inv env tn tb t w' (length ids) ids r2" .
  from inv have l1: "length (r_temps r) = length ids" unfolding resolve_inv_def by blast
  from inv2 have l2: "length (r_temps r2) = length ids"
    and n2: "\<forall>j<length ids. r_temps r2 ! j = hit_at env tn t w' (ids ! j)"
    and i2: "r_ides r2 = filter (\<lambda>pk. hit_at env tn t w' pk = None) ids"
    unfolding resolve_inv_def by simp_all
  have lt: "length temps = length ids" unfolding T by (simp add: foldl_place_length l1)
  have rt: "r_temps r2 = temps"
  proof (rule nth_equalityI)
    show "length (r_temps r2) = length temps" using l2 lt by simp
    fix j assume "j < length (r_temps r2)"
    with l2 have j: "j < length ids" by simp
    from n2 j h[OF j] show "r_temps r2 ! j = temps ! j" by simp
  qed
  have "(\<lambda>pk. hit_at env tn t w' pk = None) = (\<lambda>pk. hit_at env tn t w3 pk = None)"
    using hit_at_bean_cache[OF bc, of env tn t] by simp
  with i2 have i2': "r_ides r2 = filter (\<lambda>pk. hit_at env tn t w3 pk = None) ids" by simp
  have e: "backfilled env tb t (r_ides r2) rows = []"
    unfolding i2' by (rule second_backfill_empty[OF inv dist T G])
  from backfill_succeeds[OF db, of r2 w'] obtain temps2 w3' where
    bf2: "backfill env tn tb t r2 w' = (Inr temps2, w3')" by blast
  from backfill_world(1)[OF db bf2] e rt have t2: "temps2 = temps" by simp
  from backfill_world(2)[OF db bf2] backfill_world(3)[OF db bf2] res2 bf2 t2
  show ?thesis by blast
qed

end
